theory Spec2Isabelle
  imports Main
begin

section \<open>Function-length scanner (scripts/check-function-length.py)\<close>

text \<open>
  The script walks the \<^verbatim>\<open>src\<close> directory, finds lines that look like the start of a
  function with six regular expressions, measures each such function by counting braces,
  and reports the ones longer than \<^verbatim>\<open>MAX_LINES\<close>.

  A Python \<^verbatim>\<open>str\<close> is modelled as a \<^typ>\<open>string\<close> whose characters are the code
  points U+0000 to U+00FF. Python integers are \<^typ>\<open>int\<close>. An exception is a value
  of \<open>py_error\<close> on the left of a sum.
\<close>

subsection \<open>Python values\<close>

datatype py_error = IndexError | OSError | UnicodeDecodeError | UnicodeEncodeError

text \<open>A value that is either a \<^verbatim>\<open>str\<close> or \<^verbatim>\<open>None\<close>.\<close>

datatype py_str = PyNone | PyStr string

text \<open>\<^verbatim>\<open>xs[i]\<close> on a list: a negative index counts from the end, and an index
  outside the list raises \<^verbatim>\<open>IndexError\<close>.\<close>

definition py_index :: "'a list \<Rightarrow> int \<Rightarrow> py_error + 'a" where
  "py_index xs i =
     (if 0 \<le> i \<and> i < int (length xs) then Inr (xs ! nat i)
      else if i < 0 \<and> - int (length xs) \<le> i then Inr (xs ! nat (int (length xs) + i))
      else Inl IndexError)"

text \<open>\<^verbatim>\<open>content.split('\n')\<close>: the pieces between line feeds; there is always at
  least one piece, and a text ending in a line feed has an empty last piece. A character
  other than the line feed goes in front of the first piece of the rest; the rest always
  has a first piece, so the case \<open>[]\<close> never arises.\<close>

fun split_nl :: "string \<Rightarrow> string list" where
  "split_nl [] = [[]]"
| "split_nl (c # cs) =
     (if c = CHR 0x0A then [] # split_nl cs
      else (case split_nl cs of
              [] \<Rightarrow> [[c]]
            | piece # pieces \<Rightarrow> (c # piece) # pieces))"

text \<open>\<^verbatim>\<open>line.count(ch)\<close> for a one-character argument.\<close>

definition str_count :: "string \<Rightarrow> char \<Rightarrow> int" where
  "str_count line ch = int (count_list line ch)"

subsection \<open>\<^verbatim>\<open>count_function_lines\<close>\<close>

text \<open>
  The \<^verbatim>\<open>for i in range(function_start, len(lines))\<close> loop, with the loop variable
  \<open>i\<close> and the two locals it updates, \<open>brace_count\<close> and \<open>in_function\<close>, as
  arguments. Leaving the loop without a \<^verbatim>\<open>return\<close> gives
  \<^verbatim>\<open>len(lines) - function_start\<close>.
\<close>

function count_loop :: "string list \<Rightarrow> int \<Rightarrow> int \<Rightarrow> int \<Rightarrow> bool \<Rightarrow> py_error + int" where
  "count_loop lines function_start i brace_count in_function =
     (if i < int (length lines) then
        (case py_index lines i of
           Inl e \<Rightarrow> Inl e
         | Inr line \<Rightarrow>
             (let open_braces = str_count line CHR ''{'';
                  close_braces = str_count line CHR ''}'';
                  brace_count' = brace_count + (open_braces - close_braces);
                  in_function' = (if \<not> in_function then True else in_function)
              in if in_function' \<and> brace_count' \<le> 0 \<and> CHR ''}'' \<in> set line
                 then Inr (i - function_start + 1)
                 else count_loop lines function_start (i + 1) brace_count' in_function'))
      else Inr (int (length lines) - function_start))"
  by pat_completeness auto
termination
  by (relation "measure (\<lambda>(lines, function_start, i, brace_count, in_function).
        nat (int (length lines) - i))") auto

definition count_function_lines :: "string \<Rightarrow> int \<Rightarrow> py_error + int" where
  "count_function_lines content start_line =
     (let lines = split_nl content;
          brace_count = 0;
          in_function = False;
          function_start = start_line - 1
      in count_loop lines function_start function_start brace_count in_function)"

subsection \<open>Regular expressions\<close>

text \<open>
  The fragment of Python's \<^verbatim>\<open>re\<close> syntax that the six patterns use, with the
  semantics of its backtracking matcher: alternatives are tried left to right, a
  repetition takes as many characters as it can and gives them back one at a time, an
  optional part is tried before it is skipped. Every repetition in the patterns is over a
  single character class, so \<open>Star\<close> and \<open>Plus\<close> take a class.
\<close>

datatype regex =
    Bol                          \<comment> \<open>\<^verbatim>\<open>^\<close>, without the MULTILINE flag\<close>
  | Lit string                   \<comment> \<open>literal text\<close>
  | Cls "char \<Rightarrow> bool"           \<comment> \<open>one character of a class\<close>
  | Star "char \<Rightarrow> bool"          \<comment> \<open>\<^verbatim>\<open>c*\<close>\<close>
  | Plus "char \<Rightarrow> bool"          \<comment> \<open>\<^verbatim>\<open>c+\<close>\<close>
  | Opt regex                    \<comment> \<open>\<^verbatim>\<open>r?\<close>\<close>
  | Alt regex regex              \<comment> \<open>\<^verbatim>\<open>r|s\<close>\<close>
  | Grp nat regex                \<comment> \<open>capture group number \<open>n\<close>\<close>
  | Seq regex regex

text \<open>The state of a match attempt: how many characters of the subject lie before the
  current position, the characters from it on, the text of each group that has matched,
  and the number of the group that was closed last.\<close>

record mstate =
  pos :: nat
  rest :: string
  groups :: "nat \<Rightarrow> string option"
  lastindex :: "nat option"

definition advance :: "nat \<Rightarrow> mstate \<Rightarrow> mstate" where
  "advance n st = st\<lparr>pos := pos st + n, rest := drop n (rest st)\<rparr>"

definition close_group :: "nat \<Rightarrow> mstate \<Rightarrow> mstate \<Rightarrow> mstate" where
  "close_group n st0 st =
     st\<lparr>groups := (groups st)(n \<mapsto> take (pos st - pos st0) (rest st0)),
        lastindex := Some n\<rparr>"

text \<open>A greedy repetition that may use \<open>n\<close> characters: the continuation is tried with
  \<open>n\<close>, then with one less, down to \<open>lo\<close>.\<close>

fun give_back :: "nat \<Rightarrow> nat \<Rightarrow> mstate \<Rightarrow> (mstate \<Rightarrow> mstate option) \<Rightarrow> mstate option" where
  "give_back lo 0 st k = (if lo = 0 then k st else None)"
| "give_back lo (Suc n) st k =
     (if Suc n < lo then None
      else (case k (advance (Suc n) st) of
              Some m \<Rightarrow> Some m
            | None \<Rightarrow> give_back lo n st k))"

fun rmatch :: "regex \<Rightarrow> mstate \<Rightarrow> (mstate \<Rightarrow> mstate option) \<Rightarrow> mstate option" where
  "rmatch Bol st k = (if pos st = 0 then k st else None)"
| "rmatch (Lit s) st k =
     (if take (length s) (rest st) = s then k (advance (length s) st) else None)"
| "rmatch (Cls f) st k =
     (case rest st of
        [] \<Rightarrow> None
      | c # cs \<Rightarrow> if f c then k (advance 1 st) else None)"
| "rmatch (Star f) st k = give_back 0 (length (takeWhile f (rest st))) st k"
| "rmatch (Plus f) st k = give_back 1 (length (takeWhile f (rest st))) st k"
| "rmatch (Opt r) st k =
     (case rmatch r st k of Some m \<Rightarrow> Some m | None \<Rightarrow> k st)"
| "rmatch (Alt r1 r2) st k =
     (case rmatch r1 st k of Some m \<Rightarrow> Some m | None \<Rightarrow> rmatch r2 st k)"
| "rmatch (Grp n r) st k = rmatch r st (\<lambda>st'. k (close_group n st st'))"
| "rmatch (Seq r1 r2) st k = rmatch r1 st (\<lambda>st'. rmatch r2 st' k)"

text \<open>\<^verbatim>\<open>re.search\<close>: the pattern is tried at every position of the subject, from
  the left, and the first position where it matches gives the match object.\<close>

fun search_from :: "regex \<Rightarrow> nat \<Rightarrow> string \<Rightarrow> mstate option" where
  "search_from p i [] =
     rmatch p \<lparr>pos = i, rest = [], groups = Map.empty, lastindex = None\<rparr> Some"
| "search_from p i (c # cs) =
     (case rmatch p \<lparr>pos = i, rest = c # cs, groups = Map.empty, lastindex = None\<rparr> Some of
        Some m \<Rightarrow> Some m
      | None \<Rightarrow> search_from p (Suc i) cs)"

definition re_search :: "regex \<Rightarrow> string \<Rightarrow> mstate option" where
  "re_search p line = search_from p 0 line"

text \<open>\<^verbatim>\<open>match.group(n)\<close>: the text of group \<open>n\<close>, or \<^verbatim>\<open>None\<close> when the group
  took no part in the match.\<close>

definition match_group :: "mstate \<Rightarrow> nat \<Rightarrow> py_str" where
  "match_group m n = (case groups m n of None \<Rightarrow> PyNone | Some t \<Rightarrow> PyStr t)"

text \<open>The classes \<^verbatim>\<open>\s\<close> and \<^verbatim>\<open>\w\<close> of a \<^verbatim>\<open>str\<close> pattern, on the code points
  up to U+00FF.\<close>

definition is_space :: "char \<Rightarrow> bool" where
  "is_space c =
     (let n = (of_char c :: nat)
      in (9 \<le> n \<and> n \<le> 13) \<or> (28 \<le> n \<and> n \<le> 32) \<or> n = 133 \<or> n = 160)"

definition is_word :: "char \<Rightarrow> bool" where
  "is_word c =
     (let n = (of_char c :: nat)
      in (48 \<le> n \<and> n \<le> 57) \<or> (65 \<le> n \<and> n \<le> 90) \<or> n = 95 \<or> (97 \<le> n \<and> n \<le> 122)
         \<or> n = 170 \<or> n = 178 \<or> n = 179 \<or> n = 181 \<or> n = 185 \<or> n = 186
         \<or> (188 \<le> n \<and> n \<le> 190) \<or> (192 \<le> n \<and> n \<le> 214) \<or> (216 \<le> n \<and> n \<le> 246)
         \<or> 248 \<le> n)"

text \<open>A sequence of parts, as a pattern is written.\<close>

fun seqs :: "regex list \<Rightarrow> regex" where
  "seqs [] = Lit []"
| "seqs [r] = r"
| "seqs (r # rs) = Seq r (seqs rs)"

definition async_ws :: regex where
  "async_ws = seqs [Lit ''async'', Plus is_space]"

text \<open>The list \<^verbatim>\<open>patterns\<close> of \<^verbatim>\<open>find_functions\<close>, in its order.\<close>

definition pattern1 :: regex where
  \<comment> \<open>\<^verbatim>\<open>^\s*(export\s+)?(async\s+)?function\s+(\w+)\<close>\<close>
  "pattern1 = seqs [Bol, Star is_space,
      Opt (Grp 1 (seqs [Lit ''export'', Plus is_space])),
      Opt (Grp 2 async_ws),
      Lit ''function'', Plus is_space, Grp 3 (Plus is_word)]"

definition pattern2 :: regex where
  \<comment> \<open>\<^verbatim>\<open>^\s*(export\s+)?(async\s+)?(\w+)\s*[:=]\s*(async\s+)?function\<close>\<close>
  "pattern2 = seqs [Bol, Star is_space,
      Opt (Grp 1 (seqs [Lit ''export'', Plus is_space])),
      Opt (Grp 2 async_ws),
      Grp 3 (Plus is_word), Star is_space,
      Cls (\<lambda>c. c = CHR '':'' \<or> c = CHR ''=''), Star is_space,
      Opt (Grp 4 async_ws), Lit ''function'']"

definition pattern3 :: regex where
  \<comment> \<open>\<^verbatim>\<open>^\s*(public|private|protected)\s+(async\s+)?(\w+)\s*\(\<close>\<close>
  "pattern3 = seqs [Bol, Star is_space,
      Grp 1 (Alt (Lit ''public'') (Alt (Lit ''private'') (Lit ''protected''))),
      Plus is_space,
      Opt (Grp 2 async_ws),
      Grp 3 (Plus is_word), Star is_space, Lit ''('']"

definition pattern4 :: regex where
  \<comment> \<open>\<^verbatim>\<open>^\s*(async\s+)?(\w+)\s*\([^)]*\)\s*[:=]\s*\{\<close>\<close>
  "pattern4 = seqs [Bol, Star is_space,
      Opt (Grp 1 async_ws),
      Grp 2 (Plus is_word), Star is_space,
      Lit ''('', Star (\<lambda>c. c \<noteq> CHR '')''), Lit '')'', Star is_space,
      Cls (\<lambda>c. c = CHR '':'' \<or> c = CHR ''=''), Star is_space, Lit ''{'']"

definition pattern5 :: regex where
  \<comment> \<open>\<^verbatim>\<open>^\s*(async\s+)?(\w+)\s*\([^)]*\)\s*=>\s*\{\<close>\<close>
  "pattern5 = seqs [Bol, Star is_space,
      Opt (Grp 1 async_ws),
      Grp 2 (Plus is_word), Star is_space,
      Lit ''('', Star (\<lambda>c. c \<noteq> CHR '')''), Lit '')'', Star is_space,
      Lit ''=>'', Star is_space, Lit ''{'']"

definition pattern6 :: regex where
  \<comment> \<open>\<^verbatim>\<open>^\s*(\w+)\s*:\s*(async\s+)?function\<close>\<close>
  "pattern6 = seqs [Bol, Star is_space,
      Grp 1 (Plus is_word), Star is_space, Lit '':'', Star is_space,
      Opt (Grp 2 async_ws), Lit ''function'']"

definition patterns :: "regex list" where
  "patterns = [pattern1, pattern2, pattern3, pattern4, pattern5, pattern6]"

subsection \<open>\<^verbatim>\<open>find_functions\<close>\<close>

definition MAX_LINES :: int where
  "MAX_LINES = 120"

type_synonym path = string

text \<open>What the script reads of the file system: what the path \<^verbatim>\<open>src\<close> is, the
  files under it that \<^verbatim>\<open>rglob('*.ts')\<close> finds when it is a directory, in the order
  of the enumeration, and what opening a path and reading it as UTF-8 text gives, which
  is the text or an exception.\<close>

datatype src_kind = Absent | NotADirectory | Directory

record filesystem =
  src :: src_kind
  ts_files :: "path list"
  read_text :: "path \<Rightarrow> py_error + string"

text \<open>\<^verbatim>\<open>src_dir.exists()\<close> is true of any path that exists, a regular file as
  well as a directory.\<close>

definition src_exists :: "filesystem \<Rightarrow> bool" where
  "src_exists fs = (src fs \<noteq> Absent)"

text \<open>\<^verbatim>\<open>src_dir.rglob('*.ts')\<close> yields nothing for a path that is not a
  directory.\<close>

definition src_rglob_ts :: "filesystem \<Rightarrow> path list" where
  "src_rglob_ts fs = (if src fs = Directory then ts_files fs else [])"

text \<open>The inner \<^verbatim>\<open>for pattern in patterns\<close> loop up to its \<^verbatim>\<open>break\<close>: the match
  object of the first pattern that matches the line.\<close>

fun first_match :: "regex list \<Rightarrow> string \<Rightarrow> mstate option" where
  "first_match [] line = None"
| "first_match (pattern # ps) line =
     (case re_search pattern line of
        Some m \<Rightarrow> Some m
      | None \<Rightarrow> first_match ps line)"

text \<open>\<^verbatim>\<open>match.group(match.lastindex) if match.lastindex else 'anonymous'\<close>; the
  condition is false for \<^verbatim>\<open>None\<close> and for 0.\<close>

definition func_name_of :: "mstate \<Rightarrow> py_str" where
  "func_name_of m =
     (case lastindex m of
        None \<Rightarrow> PyStr ''anonymous''
      | Some n \<Rightarrow> if n \<noteq> 0 then match_group m n else PyStr ''anonymous'')"

type_synonym violation = "int \<times> py_str \<times> int"

text \<open>The \<^verbatim>\<open>for i, line in enumerate(lines, 1)\<close> loop; \<open>functions\<close> is the list
  it appends to. The limit \<^verbatim>\<open>MAX_LINES\<close>, a module constant in the script, is the
  argument \<open>max_lines\<close>.\<close>

fun functions_loop ::
  "int \<Rightarrow> string \<Rightarrow> int \<Rightarrow> string list \<Rightarrow> violation list \<Rightarrow> py_error + violation list" where
  "functions_loop max_lines content i [] functions = Inr functions"
| "functions_loop max_lines content i (line # ls) functions =
     (case first_match patterns line of
        None \<Rightarrow> functions_loop max_lines content (i + 1) ls functions
      | Some m \<Rightarrow>
          (let func_name = func_name_of m
           in case count_function_lines content i of
                Inl e \<Rightarrow> Inl e
              | Inr func_lines \<Rightarrow>
                  if func_lines > max_lines
                  then functions_loop max_lines content (i + 1) ls
                         (functions @ [(i, func_name, func_lines)])
                  else functions_loop max_lines content (i + 1) ls functions))"

definition find_functions :: "int \<Rightarrow> filesystem \<Rightarrow> path \<Rightarrow> py_error + violation list" where
  "find_functions max_lines fs file_path =
     (case read_text fs file_path of
        Inl e \<Rightarrow> Inl e
      | Inr content \<Rightarrow> functions_loop max_lines content 1 (split_nl content) [])"

subsection \<open>\<^verbatim>\<open>main\<close>\<close>

text \<open>The lines the script prints, by kind and with the values they show.\<close>

datatype message =
    Checking int
  | Blank
  | SrcNotFound
  | ViolationError path int py_str int int
  | AllWithin int
  | PleaseRefactor int

text \<open>How \<^verbatim>\<open>main\<close> ends: \<^verbatim>\<open>sys.exit(n)\<close>, or an exception that nothing catches,
  after which the interpreter exits with status 1.\<close>

datatype outcome = SysExit int | Uncaught py_error

fun exit_status :: "outcome \<Rightarrow> int" where
  "exit_status (SysExit n) = n"
| "exit_status (Uncaught e) = 1"

text \<open>The status of the process. Before it exits, the interpreter flushes the standard
  output; when that fails, as on a full device, the status is 120 however \<^verbatim>\<open>main\<close>
  ended.\<close>

definition process_status :: "bool \<Rightarrow> outcome \<Rightarrow> int" where
  "process_status flush_ok oc = (if flush_ok then exit_status oc else 120)"

text \<open>The module variable \<^verbatim>\<open>EXIT_CODE\<close> and what has been written to the
  standard output.\<close>

record run_state =
  EXIT_CODE :: int
  stdout :: "message list"

text \<open>The standard output of the process: what writing a line to it raises, if
  anything. The lines for a violation and for success hold the characters U+274C
  and U+2705, and a stream whose encoding lacks them raises
  \<^verbatim>\<open>UnicodeEncodeError\<close>; a stream that fails raises \<^verbatim>\<open>OSError\<close>.\<close>

type_synonym output_stream = "message \<Rightarrow> py_error option"

text \<open>A statement of \<^verbatim>\<open>main\<close> gives the exception it raises, if any, and the
  state it leaves. \<^verbatim>\<open>print\<close> writes the line or raises.\<close>

definition print :: "output_stream \<Rightarrow> message \<Rightarrow> run_state \<Rightarrow> py_error option \<times> run_state" where
  "print out msg st =
     (case out msg of
        Some e \<Rightarrow> (Some e, st)
      | None \<Rightarrow> (None, st\<lparr>stdout := stdout st @ [msg]\<rparr>))"

text \<open>\<^verbatim>\<open>for line_num, func_name, func_lines in functions\<close>: the line is printed,
  then \<^verbatim>\<open>EXIT_CODE = 1\<close>.\<close>

fun report_loop ::
  "int \<Rightarrow> output_stream \<Rightarrow> path \<Rightarrow> violation list \<Rightarrow> run_state \<Rightarrow> py_error option \<times> run_state" where
  "report_loop max_lines out ts_file [] st = (None, st)"
| "report_loop max_lines out ts_file ((line_num, func_name, func_lines) # vs) st =
     (case print out (ViolationError ts_file line_num func_name func_lines max_lines) st of
        (Some e, st') \<Rightarrow> (Some e, st')
      | (None, st') \<Rightarrow> report_loop max_lines out ts_file vs (st'\<lparr>EXIT_CODE := 1\<rparr>))"

text \<open>\<^verbatim>\<open>for ts_file in src_dir.rglob('*.ts')\<close>; an exception from
  \<^verbatim>\<open>find_functions\<close> or from \<^verbatim>\<open>print\<close> ends the loop, with what was printed
  before it.\<close>

fun files_loop ::
  "int \<Rightarrow> output_stream \<Rightarrow> filesystem \<Rightarrow> path list \<Rightarrow> run_state \<Rightarrow> py_error option \<times> run_state" where
  "files_loop max_lines out fs [] st = (None, st)"
| "files_loop max_lines out fs (ts_file # others) st =
     (case find_functions max_lines fs ts_file of
        Inl e \<Rightarrow> (Some e, st)
      | Inr functions \<Rightarrow>
          (case report_loop max_lines out ts_file functions st of
             (Some e, st') \<Rightarrow> (Some e, st')
           | (None, st') \<Rightarrow> files_loop max_lines out fs others st'))"

text \<open>The last statements of \<^verbatim>\<open>main\<close>: the summary and \<^verbatim>\<open>sys.exit(EXIT_CODE)\<close>.\<close>

definition summary :: "int \<Rightarrow> output_stream \<Rightarrow> run_state \<Rightarrow> outcome \<times> run_state" where
  "summary max_lines out st =
     (if EXIT_CODE st = 0 then
        (case print out (AllWithin max_lines) st of
           (Some e, st') \<Rightarrow> (Uncaught e, st')
         | (None, st') \<Rightarrow> (SysExit (EXIT_CODE st'), st'))
      else
        (case print out Blank st of
           (Some e, st') \<Rightarrow> (Uncaught e, st')
         | (None, st') \<Rightarrow>
             (case print out (PleaseRefactor max_lines) st' of
                (Some e, st'') \<Rightarrow> (Uncaught e, st'')
              | (None, st'') \<Rightarrow> (SysExit (EXIT_CODE st''), st''))))"

definition main :: "int \<Rightarrow> output_stream \<Rightarrow> filesystem \<Rightarrow> run_state \<Rightarrow> outcome \<times> run_state" where
  "main max_lines out fs st0 =
     (case print out (Checking max_lines) st0 of
        (Some e, st) \<Rightarrow> (Uncaught e, st)
      | (None, st) \<Rightarrow>
          (case print out Blank st of
             (Some e, st1) \<Rightarrow> (Uncaught e, st1)
           | (None, st1) \<Rightarrow>
               if \<not> src_exists fs then
                 (case print out SrcNotFound st1 of
                    (Some e, st2) \<Rightarrow> (Uncaught e, st2)
                  | (None, st2) \<Rightarrow> (SysExit 1, st2))
               else
                 (case files_loop max_lines out fs (src_rglob_ts fs) st1 of
                    (Some e, st2) \<Rightarrow> (Uncaught e, st2)
                  | (None, st2) \<Rightarrow> summary max_lines out st2)))"

text \<open>A run of the script: the module is loaded, which sets \<^verbatim>\<open>EXIT_CODE = 0\<close>, and
  \<^verbatim>\<open>main()\<close> is called.\<close>

definition run :: "output_stream \<Rightarrow> filesystem \<Rightarrow> outcome \<times> run_state" where
  "run out fs = main MAX_LINES out fs \<lparr>EXIT_CODE = 0, stdout = []\<rparr>"

text \<open>The violations a run reported: file, line, name and length of each
  \<^verbatim>\<open>ERROR\<close> line printed.\<close>

fun reported :: "message list \<Rightarrow> (path \<times> int \<times> py_str \<times> int) list" where
  "reported [] = []"
| "reported (ViolationError f l n c mx # ms) = (f, l, n, c) # reported ms"
| "reported (m # ms) = reported ms"

section \<open>Notions used to state and prove the properties\<close>

text \<open>
  The definitions named \<open>spec_\<close> follow the wording of the specification; the others
  are auxiliary notions for the proofs. None of them is part of the script.
\<close>

text \<open>The equation of \<open>count_loop\<close> is unfolded by hand, one iteration at a time.\<close>

declare count_loop.simps [simp del]

text \<open>What a line adds to the balance: its opening braces minus its closing braces.\<close>

definition brace_delta :: "string \<Rightarrow> int" where
  "brace_delta line = str_count line CHR ''{'' - str_count line CHR ''}''"

text \<open>The loop seen from the lines that remain: how many of them it consumes, from a
  balance of \<open>b\<close>. Used in the proofs only.\<close>

fun scan :: "string list \<Rightarrow> int \<Rightarrow> int" where
  "scan [] b = 0"
| "scan (l # ls) b =
     (if b + brace_delta l \<le> 0 \<and> CHR ''}'' \<in> set l then 1
      else 1 + scan ls (b + brace_delta l))"

text \<open>After the specification, section 4.1: the running balance after the line with index
  \<open>k\<close> of the lines scanned, and the stop condition at that line.\<close>

definition spec_balance :: "string list \<Rightarrow> nat \<Rightarrow> int" where
  "spec_balance ls k = sum_list (map brace_delta (take (Suc k) ls))"

definition spec_stop :: "string list \<Rightarrow> nat \<Rightarrow> bool" where
  "spec_stop ls k = (spec_balance ls k \<le> 0 \<and> CHR ''}'' \<in> set (ls ! k))"

text \<open>The lines from the 1-indexed \<open>start_line\<close> on.\<close>

definition lines_from :: "string \<Rightarrow> int \<Rightarrow> string list" where
  "lines_from content start_line = drop (nat (start_line - 1)) (split_nl content)"

text \<open>After the specification, operation \<^emph>\<open>find candidates\<close>: every line, in order and
  numbered from \<open>i\<close>, gives the pair of its number and its name when a pattern matches
  it.\<close>

fun candidates_from :: "int \<Rightarrow> string list \<Rightarrow> (int \<times> py_str) list" where
  "candidates_from i [] = []"
| "candidates_from i (line # ls) =
     (case first_match patterns line of
        None \<Rightarrow> []
      | Some m \<Rightarrow> [(i, func_name_of m)]) @ candidates_from (i + 1) ls"

definition spec_find_candidates :: "string \<Rightarrow> (int \<times> py_str) list" where
  "spec_find_candidates content = candidates_from 1 (split_nl content)"

text \<open>After the specification, operation \<^emph>\<open>scan file\<close>: each candidate is measured, and
  gives a violation record when its span exceeds the limit.\<close>

definition spec_measure :: "int \<Rightarrow> string \<Rightarrow> int \<times> py_str \<Rightarrow> violation list" where
  "spec_measure max_lines content c =
     (case count_function_lines content (fst c) of
        Inl e \<Rightarrow> []
      | Inr n \<Rightarrow> if n > max_lines then [(fst c, snd c, n)] else [])"

definition spec_scan_file :: "int \<Rightarrow> string \<Rightarrow> violation list" where
  "spec_scan_file max_lines content =
     concat (map (spec_measure max_lines content) (spec_find_candidates content))"

text \<open>A syntactic condition on a pattern: every way of matching it goes through a capture
  group. The numbers of the groups of a pattern.\<close>

fun always_groups :: "regex \<Rightarrow> bool" where
  "always_groups (Grp n r) = True"
| "always_groups (Seq r1 r2) = (always_groups r1 \<or> always_groups r2)"
| "always_groups (Alt r1 r2) = (always_groups r1 \<and> always_groups r2)"
| "always_groups r = False"

fun group_numbers :: "regex \<Rightarrow> nat set" where
  "group_numbers (Grp n r) = insert n (group_numbers r)"
| "group_numbers (Seq r1 r2) = group_numbers r1 \<union> group_numbers r2"
| "group_numbers (Alt r1 r2) = group_numbers r1 \<union> group_numbers r2"
| "group_numbers (Opt r) = group_numbers r"
| "group_numbers r = {}"

text \<open>The group that \<open>lastindex\<close> names has a number other than 0 and has captured a
  text; \<open>grows\<close> relates the state before a part of a pattern to a state after it.\<close>

definition tidy :: "mstate \<Rightarrow> bool" where
  "tidy st = (\<forall>n. lastindex st = Some n \<longrightarrow> n \<noteq> 0 \<and> groups st n \<noteq> None)"

definition grows :: "bool \<Rightarrow> mstate \<Rightarrow> mstate \<Rightarrow> bool" where
  "grows must st st' =
     (tidy st' \<and> (lastindex st \<noteq> None \<longrightarrow> lastindex st' \<noteq> None) \<and>
      (must \<longrightarrow> lastindex st' \<noteq> None))"

text \<open>The lines printed for the violations of one file.\<close>

definition violation_lines :: "int \<Rightarrow> path \<Rightarrow> violation list \<Rightarrow> message list" where
  "violation_lines max_lines ts_file vs =
     map (\<lambda>(line_num, func_name, func_lines).
            ViolationError ts_file line_num func_name func_lines max_lines) vs"

text \<open>Writing lines one after the other until one raises: the exception, if any, and the
  lines written. Then the loop over the files in the same way, without the state.\<close>

fun report_out :: "output_stream \<Rightarrow> message list \<Rightarrow> py_error option \<times> message list" where
  "report_out out [] = (None, [])"
| "report_out out (msg # ms) =
     (case out msg of
        Some e \<Rightarrow> (Some e, [])
      | None \<Rightarrow> (case report_out out ms of (e, written) \<Rightarrow> (e, msg # written)))"

fun files_out ::
  "int \<Rightarrow> output_stream \<Rightarrow> filesystem \<Rightarrow> path list \<Rightarrow> py_error option \<times> message list" where
  "files_out max_lines out fs [] = (None, [])"
| "files_out max_lines out fs (ts_file # others) =
     (case find_functions max_lines fs ts_file of
        Inl e \<Rightarrow> (Some e, [])
      | Inr vs \<Rightarrow>
          (case report_out out (violation_lines max_lines ts_file vs) of
             (Some e, written) \<Rightarrow> (Some e, written)
           | (None, written) \<Rightarrow>
               (case files_out max_lines out fs others of (e, later) \<Rightarrow> (e, written @ later))))"

text \<open>The lines for all the violations of the files of a list.\<close>

definition all_lines :: "int \<Rightarrow> filesystem \<Rightarrow> path list \<Rightarrow> message list" where
  "all_lines max_lines fs ps =
     concat (map (\<lambda>p. case read_text fs p of
                         Inl e \<Rightarrow> []
                       | Inr content \<Rightarrow> violation_lines max_lines p (spec_scan_file max_lines content))
                 ps)"

text \<open>Every file of the scan can be opened and decoded.\<close>

definition all_readable :: "filesystem \<Rightarrow> bool" where
  "all_readable fs = (\<forall>p \<in> set (src_rglob_ts fs). \<exists>content. read_text fs p = Inr content)"

text \<open>Two file systems show the same source directory: both lack it, or both have it with
  the same files in the same order and the same contents.\<close>

definition same_directory :: "filesystem \<Rightarrow> filesystem \<Rightarrow> bool" where
  "same_directory fs fs' =
     (src_exists fs' = src_exists fs \<and>
      (src_exists fs \<longrightarrow>
         src_rglob_ts fs' = src_rglob_ts fs \<and>
         (\<forall>p \<in> set (src_rglob_ts fs). read_text fs' p = read_text fs p)))"

text \<open>After the specification, operation \<^emph>\<open>run\<close>: the violations of all files, each with
  the path of its file.\<close>

definition spec_run_violations :: "int \<Rightarrow> filesystem \<Rightarrow> (path \<times> int \<times> py_str \<times> int) list" where
  "spec_run_violations max_lines fs =
     concat (map (\<lambda>p. case read_text fs p of
                         Inl e \<Rightarrow> []
                       | Inr content \<Rightarrow>
                           map (\<lambda>(i, name, n). (p, i, name, n)) (spec_scan_file max_lines content))
                 (src_rglob_ts fs))"

text \<open>Two standard outputs: one that accepts every line, and one whose encoding lacks
  the characters of the lines for a violation and for success.\<close>

definition stdout_utf8 :: output_stream where
  "stdout_utf8 = (\<lambda>msg. None)"

fun stdout_ascii :: output_stream where
  "stdout_ascii (ViolationError f l n c mx) = Some UnicodeEncodeError"
| "stdout_ascii (AllWithin mx) = Some UnicodeEncodeError"
| "stdout_ascii msg = None"

text \<open>Small file systems: a directory whose only file cannot be decoded, one whose only
  file holds the two lines \<^verbatim>\<open>function f() {\<close> and \<^verbatim>\<open>}\<close>, one that differs from it
  outside the scan, and one where \<^verbatim>\<open>src\<close> is a regular file.\<close>

definition fs_unreadable :: filesystem where
  "fs_unreadable =
     \<lparr>src = Directory, ts_files = [''src/a.ts''],
      read_text = (\<lambda>p. Inl UnicodeDecodeError)\<rparr>"

definition fs_small :: filesystem where
  "fs_small =
     \<lparr>src = Directory, ts_files = [''src/a.ts''],
      read_text = (\<lambda>p. Inr ''function f() {\<newline>}'')\<rparr>"

definition fs_small_other :: filesystem where
  "fs_small_other =
     \<lparr>src = Directory, ts_files = [''src/a.ts''],
      read_text = (\<lambda>p. if p = ''src/a.ts'' then Inr ''function f() {\<newline>}'' else Inl OSError)\<rparr>"

definition fs_src_file :: filesystem where
  "fs_src_file =
     \<lparr>src = NotADirectory, ts_files = [], read_text = (\<lambda>p. Inl OSError)\<rparr>"

text \<open>A file whose first line assigns an async function value to \<^verbatim>\<open>x\<close>, followed by
  120 empty lines and the closing brace: 122 lines.\<close>

definition async_source :: string where
  "async_source = ''x = async function () {'' @ replicate 121 (CHR 0x0A) @ ''}''"

definition fs_async :: filesystem where
  "fs_async =
     \<lparr>src = Directory, ts_files = [''src/a.ts''], read_text = (\<lambda>p. Inr async_source)\<rparr>"

section \<open>Lemmas\<close>

subsection \<open>The loop of \<^verbatim>\<open>count_function_lines\<close> as a scan of the remaining lines\<close>

lemma split_nl_not_Nil: "split_nl s \<noteq> []"
  by (induction s) (auto split: list.splits)

lemma py_index_in_range:
  "0 \<le> i \<Longrightarrow> i < int (length xs) \<Longrightarrow> py_index xs i = Inr (xs ! nat i)"
  by (simp add: py_index_def)

lemma count_loop_scan:
  "0 \<le> i \<Longrightarrow> i \<le> int (length lines) \<Longrightarrow>
   count_loop lines fs i b inside = Inr (i - fs + scan (drop (nat i) lines) b)"
proof (induction lines fs i b inside rule: count_loop.induct)
  case (1 lines fs i b inside)
  show ?case
  proof (cases "i < int (length lines)")
    case False
    with "1.prems" have "i = int (length lines)" by simp
    then show ?thesis by (simp add: count_loop.simps)
  next
    case True
    with "1.prems" have idx: "py_index lines i = Inr (lines ! nat i)"
      by (simp add: py_index_in_range)
    from True "1.prems" have dr: "drop (nat i) lines = lines ! nat i # drop (nat (i + 1)) lines"
      by (simp add: Cons_nth_drop_Suc nat_add_distrib)
    let ?l = "lines ! nat i"
    let ?b = "b + brace_delta ?l"
    show ?thesis
    proof (cases "?b \<le> 0 \<and> CHR ''}'' \<in> set ?l")
      case stop: True
      have "count_loop lines fs i b inside = Inr (i - fs + 1)"
        using True idx stop by (subst count_loop.simps) (auto simp: brace_delta_def Let_def)
      moreover have "scan (drop (nat i) lines) b = 1"
        using stop by (subst dr) simp
      ultimately show ?thesis by simp
    next
      case go: False
      have t: "(if \<not> inside then True else inside) = True"
        by (cases inside) simp_all
      have ih: "count_loop lines fs (i + 1) ?b True =
                Inr (i + 1 - fs + scan (drop (nat (i + 1)) lines) ?b)"
        using "1.IH"[OF True idx refl refl refl refl] go True "1.prems"
        by (simp add: brace_delta_def t)
      have step: "count_loop lines fs i b inside = count_loop lines fs (i + 1) ?b True"
        using True idx go by (subst count_loop.simps) (auto simp: brace_delta_def Let_def t)
      have sc: "scan (drop (nat i) lines) b = 1 + scan (drop (nat (i + 1)) lines) ?b"
        using go by (subst dr) auto
      show ?thesis by (simp add: step ih sc)
    qed
  qed
qed

lemma count_function_lines_scan:
  assumes "1 \<le> start_line" "start_line \<le> int (length (split_nl content))"
  shows "count_function_lines content start_line = Inr (scan (lines_from content start_line) 0)"
  using assms count_loop_scan[of "start_line - 1" "split_nl content" "start_line - 1" 0 False]
  by (simp add: count_function_lines_def lines_from_def)

lemma spec_balance_Cons_0: "spec_balance (l # ls) 0 = brace_delta l"
  by (simp add: spec_balance_def)

lemma spec_balance_Cons_Suc: "spec_balance (l # ls) (Suc k) = brace_delta l + spec_balance ls k"
  by (simp add: spec_balance_def)

lemma scan_ge_1: "ls \<noteq> [] \<Longrightarrow> 1 \<le> scan ls b"
proof (induction ls arbitrary: b)
  case Nil
  then show ?case by simp
next
  case (Cons l ls)
  show ?case
  proof (cases ls)
    case Nil
    then show ?thesis by simp
  next
    case (Cons l' ls')
    then have "1 \<le> scan ls (b + brace_delta l)" using Cons.IH by simp
    then show ?thesis by simp
  qed
qed

lemma scan_le_length: "scan ls b \<le> int (length ls)"
proof (induction ls arbitrary: b)
  case Nil
  then show ?case by simp
next
  case (Cons l ls)
  have "scan ls (b + brace_delta l) \<le> int (length ls)" by (rule Cons.IH)
  then show ?case by simp
qed

lemma scan_no_stop:
  "(\<forall>k<length ls. \<not> (b + spec_balance ls k \<le> 0 \<and> CHR ''}'' \<in> set (ls ! k))) \<Longrightarrow>
   scan ls b = int (length ls)"
proof (induction ls arbitrary: b)
  case Nil
  then show ?case by simp
next
  case (Cons l ls)
  from Cons.prems have here: "\<not> (b + brace_delta l \<le> 0 \<and> CHR ''}'' \<in> set l)"
    by (force simp: spec_balance_Cons_0)
  have "\<forall>k<length ls. \<not> (b + brace_delta l + spec_balance ls k \<le> 0 \<and> CHR ''}'' \<in> set (ls ! k))"
  proof (intro allI impI)
    fix k assume "k < length ls"
    then have "Suc k < length (l # ls)" by simp
    with Cons.prems have "\<not> (b + spec_balance (l # ls) (Suc k) \<le> 0 \<and> CHR ''}'' \<in> set ((l # ls) ! Suc k))"
      by blast
    then show "\<not> (b + brace_delta l + spec_balance ls k \<le> 0 \<and> CHR ''}'' \<in> set (ls ! k))"
      by (simp add: spec_balance_Cons_Suc add.assoc)
  qed
  then have "scan ls (b + brace_delta l) = int (length ls)" by (rule Cons.IH)
  with here show ?case by auto
qed

lemma scan_first_stop:
  "k < length ls \<Longrightarrow> b + spec_balance ls k \<le> 0 \<Longrightarrow> CHR ''}'' \<in> set (ls ! k) \<Longrightarrow>
   (\<forall>j<k. \<not> (b + spec_balance ls j \<le> 0 \<and> CHR ''}'' \<in> set (ls ! j))) \<Longrightarrow>
   scan ls b = int k + 1"
proof (induction ls arbitrary: b k)
  case Nil
  then show ?case by simp
next
  case (Cons l ls)
  show ?case
  proof (cases k)
    case 0
    with Cons.prems show ?thesis by (simp add: spec_balance_Cons_0)
  next
    case (Suc k')
    from Cons.prems(4) Suc have here: "\<not> (b + brace_delta l \<le> 0 \<and> CHR ''}'' \<in> set l)"
      by (force simp: spec_balance_Cons_0)
    have earlier: "\<forall>j<k'. \<not> (b + brace_delta l + spec_balance ls j \<le> 0 \<and> CHR ''}'' \<in> set (ls ! j))"
    proof (intro allI impI)
      fix j assume "j < k'"
      then have "Suc j < k" using Suc by simp
      with Cons.prems(4)
      have "\<not> (b + spec_balance (l # ls) (Suc j) \<le> 0 \<and> CHR ''}'' \<in> set ((l # ls) ! Suc j))"
        by blast
      then show "\<not> (b + brace_delta l + spec_balance ls j \<le> 0 \<and> CHR ''}'' \<in> set (ls ! j))"
        by (simp add: spec_balance_Cons_Suc add.assoc)
    qed
    have "scan ls (b + brace_delta l) = int k' + 1"
    proof (rule Cons.IH)
      show "k' < length ls" using Cons.prems(1) Suc by simp
      show "b + brace_delta l + spec_balance ls k' \<le> 0"
        using Cons.prems(2) Suc by (simp add: spec_balance_Cons_Suc add.assoc)
      show "CHR ''}'' \<in> set (ls ! k')" using Cons.prems(3) Suc by simp
      show "\<forall>j<k'. \<not> (b + brace_delta l + spec_balance ls j \<le> 0 \<and> CHR ''}'' \<in> set (ls ! j))"
        by (rule earlier)
    qed
    with here Suc show ?thesis by auto
  qed
qed

lemma length_lines_from:
  "1 \<le> start_line \<Longrightarrow> start_line \<le> int (length (split_nl content)) \<Longrightarrow>
   int (length (lines_from content start_line)) = int (length (split_nl content)) - start_line + 1"
  by (simp add: lines_from_def)

lemma lines_from_not_Nil:
  "1 \<le> start_line \<Longrightarrow> start_line \<le> int (length (split_nl content)) \<Longrightarrow>
   lines_from content start_line \<noteq> []"
  by (simp add: lines_from_def)

subsection \<open>The loop of \<^verbatim>\<open>find_functions\<close>\<close>

lemma count_function_lines_in_range:
  assumes "1 \<le> i" "i \<le> int (length (split_nl content))"
  shows "\<exists>n. count_function_lines content i = Inr n"
  using count_function_lines_scan[OF assms] by simp

lemma functions_loop_refines:
  "1 \<le> i \<Longrightarrow> i + int (length ls) - 1 \<le> int (length (split_nl content)) \<Longrightarrow>
   functions_loop max_lines content i ls acc =
     Inr (acc @ concat (map (spec_measure max_lines content) (candidates_from i ls)))"
proof (induction ls arbitrary: i acc)
  case Nil
  then show ?case by simp
next
  case (Cons line ls)
  have rng: "1 \<le> i + 1" "i + 1 + int (length ls) - 1 \<le> int (length (split_nl content))"
    using Cons.prems by simp_all
  note ih = Cons.IH[OF rng]
  obtain n where n: "count_function_lines content i = Inr n"
    using count_function_lines_in_range[of i content] Cons.prems by auto
  show ?case
  proof (cases "first_match patterns line")
    case None
    then show ?thesis by (simp add: ih)
  next
    case (Some m)
    then show ?thesis by (simp add: ih n spec_measure_def Let_def)
  qed
qed

lemma find_functions_refines:
  assumes "read_text fs file_path = Inr content"
  shows "find_functions max_lines fs file_path = Inr (spec_scan_file max_lines content)"
proof -
  have "functions_loop max_lines content 1 (split_nl content) [] =
     Inr ([] @ concat (map (spec_measure max_lines content) (candidates_from 1 (split_nl content))))"
    by (rule functions_loop_refines) simp_all
  then show ?thesis
    using assms by (simp add: find_functions_def spec_scan_file_def spec_find_candidates_def)
qed

lemma candidates_from_bounds:
  "c \<in> set (candidates_from i ls) \<Longrightarrow> i \<le> fst c \<and> fst c < i + int (length ls)"
proof (induction ls arbitrary: i)
  case Nil
  then show ?case by simp
next
  case (Cons line ls)
  from Cons.prems consider
      (here) "c \<in> set (case first_match patterns line of None \<Rightarrow> [] | Some m \<Rightarrow> [(i, func_name_of m)])"
    | (later) "c \<in> set (candidates_from (i + 1) ls)"
    by auto
  then show ?case
  proof cases
    case here
    then show ?thesis by (cases "first_match patterns line") auto
  next
    case later
    from Cons.IH[OF later] show ?thesis by simp
  qed
qed

lemma candidates_from_sorted: "sorted_wrt (<) (map fst (candidates_from i ls))"
proof (induction ls arbitrary: i)
  case Nil
  then show ?case by simp
next
  case (Cons line ls)
  have later: "\<forall>c \<in> set (candidates_from (i + 1) ls). i < fst c"
    using candidates_from_bounds[of _ "i + 1" ls] by force
  show ?case
    using Cons.IH[of "i + 1"] later
    by (cases "first_match patterns line") (auto simp: sorted_wrt_append)
qed

lemma candidates_from_at:
  "k < length ls \<Longrightarrow>
   filter (\<lambda>c. fst c = i + int k) (candidates_from i ls) =
     (case first_match patterns (ls ! k) of
        None \<Rightarrow> []
      | Some m \<Rightarrow> [(i + int k, func_name_of m)])"
proof (induction ls arbitrary: i k)
  case Nil
  then show ?case by simp
next
  case (Cons line ls)
  show ?case
  proof (cases k)
    case 0
    have "\<forall>c \<in> set (candidates_from (i + 1) ls). fst c \<noteq> i"
      using candidates_from_bounds[of _ "i + 1" ls] by force
    then have "filter (\<lambda>c. fst c = i) (candidates_from (i + 1) ls) = []"
      by (simp add: filter_empty_conv)
    with 0 show ?thesis by (cases "first_match patterns line") simp_all
  next
    case (Suc k')
    with Cons.prems have k': "k' < length ls" by simp
    have ik: "i + int k = i + 1 + int k'" using Suc by simp
    have nth: "(line # ls) ! k = ls ! k'" using Suc by simp
    have ih: "filter (\<lambda>c. fst c = i + 1 + int k') (candidates_from (i + 1) ls) =
          (case first_match patterns (ls ! k') of None \<Rightarrow> [] | Some m \<Rightarrow> [(i + 1 + int k', func_name_of m)])"
      by (rule Cons.IH[OF k'])
    have hd: "filter (\<lambda>c. fst c = i + 1 + int k')
                (case first_match patterns line of None \<Rightarrow> [] | Some m \<Rightarrow> [(i, func_name_of m)]) = []"
      by (cases "first_match patterns line") simp_all
    have "filter (\<lambda>c. fst c = i + 1 + int k') (candidates_from i (line # ls)) =
          filter (\<lambda>c. fst c = i + 1 + int k')
                (case first_match patterns line of None \<Rightarrow> [] | Some m \<Rightarrow> [(i, func_name_of m)]) @
          filter (\<lambda>c. fst c = i + 1 + int k') (candidates_from (i + 1) ls)"
      by (simp only: candidates_from.simps filter_append)
    also have "\<dots> = (case first_match patterns (ls ! k') of None \<Rightarrow> [] | Some m \<Rightarrow> [(i + 1 + int k', func_name_of m)])"
      by (simp only: hd ih append_Nil)
    finally show ?thesis by (simp only: ik nth)
  qed
qed

lemma spec_measure_fst: "v \<in> set (spec_measure max_lines content c) \<Longrightarrow> fst v = fst c"
  by (auto simp: spec_measure_def split: sum.splits if_splits)

lemma measured_sorted:
  "sorted_wrt (<) (map fst cs) \<Longrightarrow>
   sorted_wrt (<) (map fst (concat (map (spec_measure max_lines content) cs)))"
proof (induction cs)
  case Nil
  then show ?case by simp
next
  case (Cons c cs)
  have tl: "sorted_wrt (<) (map fst (concat (map (spec_measure max_lines content) cs)))"
    using Cons by simp
  have gt: "\<forall>v \<in> set (concat (map (spec_measure max_lines content) cs)). fst c < fst v"
  proof
    fix v assume "v \<in> set (concat (map (spec_measure max_lines content) cs))"
    then obtain c' where "c' \<in> set cs" "v \<in> set (spec_measure max_lines content c')" by auto
    then show "fst c < fst v" using Cons.prems spec_measure_fst[of v max_lines content c'] by auto
  qed
  have hd: "sorted_wrt (<) (map fst (spec_measure max_lines content c))"
    by (auto simp: spec_measure_def split: sum.splits)
  have eq: "\<forall>v \<in> set (spec_measure max_lines content c). fst v = fst c"
    using spec_measure_fst by blast
  show ?case using tl gt hd eq by (auto simp: sorted_wrt_append)
qed

lemma measured_filter:
  "filter (\<lambda>v. fst v = j) (concat (map (spec_measure max_lines content) cs)) =
   concat (map (spec_measure max_lines content) (filter (\<lambda>c. fst c = j) cs))"
proof (induction cs)
  case Nil
  then show ?case by simp
next
  case (Cons c cs)
  have "filter (\<lambda>v. fst v = j) (spec_measure max_lines content c) =
        (if fst c = j then spec_measure max_lines content c else [])"
    by (auto simp: spec_measure_def split: sum.splits)
  then show ?case using Cons by simp
qed

subsection \<open>A match of a pattern closes a group\<close>

lemma tidy_advance: "tidy (advance n st) = tidy st"
  by (simp add: tidy_def advance_def)

lemma lastindex_advance: "lastindex (advance n st) = lastindex st"
  by (simp add: advance_def)

lemma give_back_result:
  "give_back lo n st k = Some m \<Longrightarrow> \<exists>j. k (advance j st) = Some m"
proof (induction n)
  case 0
  then have "k st = Some m" by (simp split: if_splits)
  moreover have "advance 0 st = st" by (simp add: advance_def)
  ultimately show ?case by metis
next
  case (Suc n)
  show ?case
  proof (cases "k (advance (Suc n) st)")
    case None
    with Suc.prems have "give_back lo n st k = Some m" by (simp split: if_splits)
    then show ?thesis by (rule Suc.IH)
  next
    case (Some m')
    with Suc.prems have "m' = m" by (simp split: if_splits)
    with Some show ?thesis by blast
  qed
qed

lemma grows_refl: "tidy st \<Longrightarrow> grows False st st"
  by (simp add: grows_def)

lemma grows_advance: "tidy st \<Longrightarrow> grows False st (advance j st)"
  by (simp add: grows_def tidy_advance lastindex_advance)

lemma grows_close: "n \<noteq> 0 \<Longrightarrow> grows True st (close_group n st0 st')"
  by (simp add: grows_def tidy_def close_group_def)

lemma grows_trans:
  "grows a st st1 \<Longrightarrow> grows b st1 st2 \<Longrightarrow> grows (a \<or> b) st st2"
  by (auto simp: grows_def)

lemma grows_weaken: "grows a st st' \<Longrightarrow> (b \<longrightarrow> a) \<Longrightarrow> grows b st st'"
  by (auto simp: grows_def)

lemma rmatch_grows:
  "rmatch r st k = Some m \<Longrightarrow> tidy st \<Longrightarrow> 0 \<notin> group_numbers r \<Longrightarrow>
   \<exists>st'. k st' = Some m \<and> grows (always_groups r) st st'"
proof (induction r arbitrary: st k)
  case Bol
  then have "k st = Some m" by (simp split: if_splits)
  with Bol.prems(2) show ?case using grows_refl by auto
next
  case (Lit s)
  then have "k (advance (length s) st) = Some m" by (simp split: if_splits)
  with Lit.prems(2) show ?case using grows_advance by auto
next
  case (Cls f)
  then have "k (advance 1 st) = Some m" by (simp split: list.splits if_splits)
  with Cls.prems(2) show ?case using grows_advance by auto
next
  case (Star f)
  then obtain j where "k (advance j st) = Some m" using give_back_result by fastforce
  with Star.prems(2) show ?case using grows_advance by auto
next
  case (Plus f)
  then obtain j where "k (advance j st) = Some m" using give_back_result by fastforce
  with Plus.prems(2) show ?case using grows_advance by auto
next
  case (Opt r)
  show ?case
  proof (cases "rmatch r st k")
    case None
    with Opt.prems have "k st = Some m" by simp
    with Opt.prems(2) show ?thesis using grows_refl by auto
  next
    case (Some m')
    with Opt.prems have "rmatch r st k = Some m" by simp
    from Opt.IH[OF this Opt.prems(2)] Opt.prems(3)
    obtain st' where "k st' = Some m" "grows (always_groups r) st st'" by auto
    then show ?thesis using grows_weaken[of "always_groups r" st st' False] by auto
  qed
next
  case (Alt r1 r2)
  show ?case
  proof (cases "rmatch r1 st k")
    case None
    with Alt.prems have "rmatch r2 st k = Some m" by simp
    from Alt.IH(2)[OF this Alt.prems(2)] Alt.prems(3)
    obtain st' where "k st' = Some m" "grows (always_groups r2) st st'" by auto
    then show ?thesis
      using grows_weaken[of "always_groups r2" st st' "always_groups r1 \<and> always_groups r2"] by auto
  next
    case (Some m')
    with Alt.prems have "rmatch r1 st k = Some m" by simp
    from Alt.IH(1)[OF this Alt.prems(2)] Alt.prems(3)
    obtain st' where "k st' = Some m" "grows (always_groups r1) st st'" by auto
    then show ?thesis
      using grows_weaken[of "always_groups r1" st st' "always_groups r1 \<and> always_groups r2"] by auto
  qed
next
  case (Grp n r)
  from Grp.prems have "rmatch r st (\<lambda>st'. k (close_group n st st')) = Some m" by simp
  from Grp.IH[OF this Grp.prems(2)] Grp.prems(3)
  obtain st' where "k (close_group n st st') = Some m" by auto
  moreover have "grows True st (close_group n st st')"
    using Grp.prems(3) by (intro grows_close) auto
  ultimately show ?case by auto
next
  case (Seq r1 r2)
  from Seq.prems have "rmatch r1 st (\<lambda>st'. rmatch r2 st' k) = Some m" by simp
  from Seq.IH(1)[OF this Seq.prems(2)] Seq.prems(3)
  obtain st1 where st1: "rmatch r2 st1 k = Some m" "grows (always_groups r1) st st1" by auto
  then have "tidy st1" by (simp add: grows_def)
  from Seq.IH(2)[OF st1(1) this] Seq.prems(3)
  obtain st2 where st2: "k st2 = Some m" "grows (always_groups r2) st1 st2" by auto
  from grows_trans[OF st1(2) st2(2)] st2(1) show ?case by auto
qed

lemma search_from_grows:
  "search_from p i s = Some m \<Longrightarrow> 0 \<notin> group_numbers p \<Longrightarrow> always_groups p \<Longrightarrow>
   tidy m \<and> lastindex m \<noteq> None"
proof (induction s arbitrary: i)
  case Nil
  let ?st = "\<lparr>pos = i, rest = [], groups = Map.empty, lastindex = None\<rparr>"
  have "tidy ?st" by (simp add: tidy_def)
  moreover from Nil have "rmatch p ?st Some = Some m" by simp
  ultimately obtain st' where "Some st' = Some m" "grows (always_groups p) ?st st'"
    using rmatch_grows[of p ?st Some m] Nil.prems(2) by auto
  with Nil.prems(3) show ?case by (simp add: grows_def)
next
  case (Cons c cs)
  let ?st = "\<lparr>pos = i, rest = c # cs, groups = Map.empty, lastindex = None\<rparr>"
  show ?case
  proof (cases "rmatch p ?st Some")
    case None
    with Cons.prems have "search_from p (Suc i) cs = Some m" by simp
    from Cons.IH[OF this Cons.prems(2,3)] show ?thesis .
  next
    case (Some m')
    with Cons.prems have r: "rmatch p ?st Some = Some m" by simp
    have "tidy ?st" by (simp add: tidy_def)
    then obtain st' where "Some st' = Some m" "grows (always_groups p) ?st st'"
      using rmatch_grows[OF r] Cons.prems(2) by auto
    with Cons.prems(3) show ?thesis by (simp add: grows_def)
  qed
qed

lemma patterns_always_group:
  "p \<in> set patterns \<Longrightarrow> always_groups p \<and> 0 \<notin> group_numbers p"
  by (auto simp: patterns_def pattern1_def pattern2_def pattern3_def pattern4_def
      pattern5_def pattern6_def async_ws_def)

lemma re_search_patterns:
  assumes "p \<in> set patterns" "re_search p line = Some m"
  shows "\<exists>n t. lastindex m = Some n \<and> n \<noteq> 0 \<and> groups m n = Some t"
proof -
  from assms have "tidy m \<and> lastindex m \<noteq> None"
    using search_from_grows[of p 0 line m] patterns_always_group[of p]
    by (simp add: re_search_def)
  then show ?thesis by (auto simp: tidy_def)
qed

subsection \<open>The first pattern that matches\<close>

lemma first_match_None:
  "first_match ps line = None \<longleftrightarrow> (\<forall>p \<in> set ps. re_search p line = None)"
  by (induction ps) (auto split: option.splits)

lemma first_match_Some:
  "first_match ps line = Some m \<longleftrightarrow>
     (\<exists>k<length ps. re_search (ps ! k) line = Some m \<and> (\<forall>j<k. re_search (ps ! j) line = None))"
proof (induction ps)
  case Nil
  then show ?case by simp
next
  case (Cons p ps)
  show ?case
  proof (cases "re_search p line")
    case (Some m')
    have "(\<exists>k<length (p # ps). re_search ((p # ps) ! k) line = Some m \<and>
             (\<forall>j<k. re_search ((p # ps) ! j) line = None)) \<longleftrightarrow> m' = m"
    proof
      assume "\<exists>k<length (p # ps). re_search ((p # ps) ! k) line = Some m \<and>
             (\<forall>j<k. re_search ((p # ps) ! j) line = None)"
      then obtain k where k: "re_search ((p # ps) ! k) line = Some m"
        "\<forall>j<k. re_search ((p # ps) ! j) line = None" by blast
      have "k = 0"
      proof (rule ccontr)
        assume "k \<noteq> 0"
        then have "re_search ((p # ps) ! 0) line = None" using k(2) by blast
        with Some show False by simp
      qed
      with k(1) Some show "m' = m" by simp
    next
      assume "m' = m"
      with Some have "re_search ((p # ps) ! 0) line = Some m \<and>
             (\<forall>j<0. re_search ((p # ps) ! j) line = None)" by simp
      then show "\<exists>k<length (p # ps). re_search ((p # ps) ! k) line = Some m \<and>
             (\<forall>j<k. re_search ((p # ps) ! j) line = None)" by blast
    qed
    with Some show ?thesis by simp
  next
    case None
    have "(\<exists>k<length (p # ps). re_search ((p # ps) ! k) line = Some m \<and>
             (\<forall>j<k. re_search ((p # ps) ! j) line = None)) \<longleftrightarrow>
          (\<exists>k<length ps. re_search (ps ! k) line = Some m \<and> (\<forall>j<k. re_search (ps ! j) line = None))"
      (is "?L \<longleftrightarrow> ?R")
    proof
      assume ?L
      then obtain k where k: "k < length (p # ps)" "re_search ((p # ps) ! k) line = Some m"
        "\<forall>j<k. re_search ((p # ps) ! j) line = None" by blast
      with None obtain k' where k': "k = Suc k'" by (cases k) auto
      have "\<forall>j<k'. re_search (ps ! j) line = None"
      proof (intro allI impI)
        fix j assume "j < k'"
        then have "Suc j < k" using k' by simp
        with k(3) have "re_search ((p # ps) ! Suc j) line = None" by blast
        then show "re_search (ps ! j) line = None" by simp
      qed
      with k k' show ?R by auto
    next
      assume ?R
      then obtain k where k: "k < length ps" "re_search (ps ! k) line = Some m"
        "\<forall>j<k. re_search (ps ! j) line = None" by blast
      have "\<forall>j<Suc k. re_search ((p # ps) ! j) line = None"
      proof (intro allI impI)
        fix j assume "j < Suc k"
        then show "re_search ((p # ps) ! j) line = None"
          using None k(3) by (cases j) auto
      qed
      with k show ?L by (intro exI[of _ "Suc k"]) simp
    qed
    with None Cons.IH show ?thesis by simp
  qed
qed

subsection \<open>The loops of \<^verbatim>\<open>main\<close>\<close>

lemma reported_append: "reported (ms @ ms') = reported ms @ reported ms'"
  by (induction ms rule: reported.induct) simp_all

lemma reported_violation_lines:
  "reported (violation_lines max_lines p vs) = map (\<lambda>(i, name, n). (p, i, name, n)) vs"
  by (induction vs) (auto simp: violation_lines_def)

lemma violation_lines_Nil: "violation_lines max_lines p vs = [] \<longleftrightarrow> vs = []"
  by (simp add: violation_lines_def)

lemma length_violation_lines: "length (violation_lines max_lines p vs) = length vs"
  by (simp add: violation_lines_def)

lemma violation_lines_Cons:
  "violation_lines max_lines p ((i, name, n) # vs) =
     ViolationError p i name n max_lines # violation_lines max_lines p vs"
  by (simp add: violation_lines_def)

lemma report_out_accepted:
  "\<forall>msg \<in> set ms. out msg = None \<Longrightarrow> report_out out ms = (None, ms)"
  by (induction ms) simp_all

lemma report_out_None:
  "fst (report_out out ms) = None \<Longrightarrow> snd (report_out out ms) = ms"
proof (induction ms)
  case Nil
  then show ?case by simp
next
  case (Cons msg ms)
  show ?case
  proof (cases "out msg")
    case (Some e)
    with Cons.prems show ?thesis by simp
  next
    case None
    obtain e written where r: "report_out out ms = (e, written)" by (cases "report_out out ms")
    with Cons.prems None have "e = None" by simp
    with Cons.IH r have "written = ms" by simp
    with None r show ?thesis by simp
  qed
qed

lemma report_loop_state:
  "report_loop max_lines out p vs st =
     (fst (report_out out (violation_lines max_lines p vs)),
      \<lparr>EXIT_CODE = (if snd (report_out out (violation_lines max_lines p vs)) = []
                      then EXIT_CODE st else 1),
       stdout = stdout st @ snd (report_out out (violation_lines max_lines p vs))\<rparr>)"
proof (induction vs arbitrary: st)
  case Nil
  then show ?case by (simp add: violation_lines_def)
next
  case (Cons v vs)
  obtain i name n where v: "v = (i, name, n)" by (cases v)
  let ?msg = "ViolationError p i name n max_lines"
  show ?case
  proof (cases "out ?msg")
    case (Some e)
    then show ?thesis by (simp add: v violation_lines_Cons print_def)
  next
    case None
    obtain e written where r: "report_out out (violation_lines max_lines p vs) = (e, written)"
      by (cases "report_out out (violation_lines max_lines p vs)")
    show ?thesis by (simp add: v violation_lines_Cons print_def None Cons.IH r)
  qed
qed

lemma files_loop_state:
  "files_loop max_lines out fs ps st =
     (fst (files_out max_lines out fs ps),
      \<lparr>EXIT_CODE = (if snd (files_out max_lines out fs ps) = [] then EXIT_CODE st else 1),
       stdout = stdout st @ snd (files_out max_lines out fs ps)\<rparr>)"
proof (induction ps arbitrary: st)
  case Nil
  then show ?case by simp
next
  case (Cons p ps)
  show ?case
  proof (cases "find_functions max_lines fs p")
    case (Inl e)
    then show ?thesis by simp
  next
    case (Inr vs)
    obtain e written where r: "report_out out (violation_lines max_lines p vs) = (e, written)"
      by (cases "report_out out (violation_lines max_lines p vs)")
    obtain e' later where f: "files_out max_lines out fs ps = (e', later)"
      by (cases "files_out max_lines out fs ps")
    show ?thesis
    proof (cases e)
      case (Some x)
      then show ?thesis by (simp add: Inr report_loop_state r)
    next
      case None
      then show ?thesis by (simp add: Inr report_loop_state r Cons.IH f)
    qed
  qed
qed

lemma find_functions_same_read:
  "read_text fs' p = read_text fs p \<Longrightarrow> find_functions max_lines fs' p = find_functions max_lines fs p"
  by (simp add: find_functions_def)

lemma files_out_same_read:
  "\<forall>p \<in> set ps. read_text fs' p = read_text fs p \<Longrightarrow>
   files_out max_lines out fs' ps = files_out max_lines out fs ps"
proof (induction ps)
  case Nil
  then show ?case by simp
next
  case (Cons p ps)
  have ff: "find_functions max_lines fs' p = find_functions max_lines fs p"
    using Cons.prems by (intro find_functions_same_read) simp
  have ih: "files_out max_lines out fs' ps = files_out max_lines out fs ps"
    using Cons by simp
  show ?case by (simp only: files_out.simps ff ih)
qed

lemma files_out_None:
  "fst (files_out max_lines out fs ps) = None \<Longrightarrow>
   (\<forall>p \<in> set ps. \<exists>content. read_text fs p = Inr content) \<and>
   snd (files_out max_lines out fs ps) = all_lines max_lines fs ps"
proof (induction ps)
  case Nil
  then show ?case by (simp add: all_lines_def)
next
  case (Cons p ps)
  show ?case
  proof (cases "read_text fs p")
    case (Inl e)
    with Cons.prems show ?thesis by (simp add: find_functions_def)
  next
    case (Inr content)
    have ff: "find_functions max_lines fs p = Inr (spec_scan_file max_lines content)"
      by (rule find_functions_refines[OF Inr])
    let ?ms = "violation_lines max_lines p (spec_scan_file max_lines content)"
    obtain e written where r: "report_out out ?ms = (e, written)" by (cases "report_out out ?ms")
    obtain e' later where f: "files_out max_lines out fs ps = (e', later)"
      by (cases "files_out max_lines out fs ps")
    from Cons.prems ff r have e: "e = None" by (cases e) simp_all
    with Cons.prems ff r f have e': "e' = None" by simp
    from e r have w: "written = ?ms" using report_out_None[of out ?ms] by simp
    from Cons.IH e' f have ih: "(\<forall>p \<in> set ps. \<exists>content. read_text fs p = Inr content)"
      "later = all_lines max_lines fs ps" by simp_all
    show ?thesis using Inr ff r f e w ih by (simp add: all_lines_def)
  qed
qed

lemma files_out_accepted:
  "\<forall>p \<in> set ps. \<exists>content. read_text fs p = Inr content \<Longrightarrow>
   \<forall>msg \<in> set (all_lines max_lines fs ps). out msg = None \<Longrightarrow>
   files_out max_lines out fs ps = (None, all_lines max_lines fs ps)"
proof (induction ps)
  case Nil
  then show ?case by (simp add: all_lines_def)
next
  case (Cons p ps)
  then obtain content where c: "read_text fs p = Inr content" by auto
  have ff: "find_functions max_lines fs p = Inr (spec_scan_file max_lines content)"
    by (rule find_functions_refines[OF c])
  let ?ms = "violation_lines max_lines p (spec_scan_file max_lines content)"
  have al: "all_lines max_lines fs (p # ps) = ?ms @ all_lines max_lines fs ps"
    by (simp add: all_lines_def c)
  have "\<forall>msg \<in> set ?ms. out msg = None" using Cons.prems(2) al by simp
  then have r: "report_out out ?ms = (None, ?ms)" by (rule report_out_accepted)
  have "files_out max_lines out fs ps = (None, all_lines max_lines fs ps)"
    using Cons.IH Cons.prems al by simp
  then show ?case by (simp add: ff r al)
qed

lemma reported_all_lines:
  "reported (all_lines max_lines fs (src_rglob_ts fs)) = spec_run_violations max_lines fs"
proof -
  have "\<And>ps. reported (all_lines max_lines fs ps) =
     concat (map (\<lambda>p. case read_text fs p of
                         Inl e \<Rightarrow> []
                       | Inr content \<Rightarrow>
                           map (\<lambda>(i, name, n). (p, i, name, n)) (spec_scan_file max_lines content)) ps)"
  proof -
    fix ps
    show "reported (all_lines max_lines fs ps) =
     concat (map (\<lambda>p. case read_text fs p of
                         Inl e \<Rightarrow> []
                       | Inr content \<Rightarrow>
                           map (\<lambda>(i, name, n). (p, i, name, n)) (spec_scan_file max_lines content)) ps)"
    proof (induction ps)
      case Nil
      then show ?case by (simp add: all_lines_def)
    next
      case (Cons p ps)
      have "all_lines max_lines fs (p # ps) =
            (case read_text fs p of Inl e \<Rightarrow> []
             | Inr content \<Rightarrow> violation_lines max_lines p (spec_scan_file max_lines content))
            @ all_lines max_lines fs ps"
        by (simp add: all_lines_def)
      then show ?case using Cons
        by (cases "read_text fs p") (simp_all add: reported_append reported_violation_lines)
    qed
  qed
  then show ?thesis by (simp add: spec_run_violations_def)
qed

lemma all_lines_Nil_iff:
  "all_lines max_lines fs (src_rglob_ts fs) = [] \<longleftrightarrow> spec_run_violations max_lines fs = []"
proof -
  have "\<And>ps. length (reported (all_lines max_lines fs ps)) = length (all_lines max_lines fs ps)"
  proof -
    fix ps
    show "length (reported (all_lines max_lines fs ps)) = length (all_lines max_lines fs ps)"
    proof (induction ps)
      case Nil
      then show ?case by (simp add: all_lines_def)
    next
      case (Cons p ps)
      have "all_lines max_lines fs (p # ps) =
            (case read_text fs p of Inl e \<Rightarrow> []
             | Inr content \<Rightarrow> violation_lines max_lines p (spec_scan_file max_lines content))
            @ all_lines max_lines fs ps"
        by (simp add: all_lines_def)
      then show ?case using Cons
        by (cases "read_text fs p") (simp_all add: reported_append reported_violation_lines length_violation_lines)
    qed
  qed
  then have "length (spec_run_violations max_lines fs) = length (all_lines max_lines fs (src_rglob_ts fs))"
    by (simp add: reported_all_lines[symmetric])
  then show ?thesis by (metis length_0_conv)
qed

subsection \<open>The outcome of a run\<close>

lemma main_result:
  "main max_lines out fs st0 =
     (case out (Checking max_lines) of
        Some e \<Rightarrow> (Uncaught e, st0)
      | None \<Rightarrow>
          (case out Blank of
             Some e \<Rightarrow> (Uncaught e, st0\<lparr>stdout := stdout st0 @ [Checking max_lines]\<rparr>)
           | None \<Rightarrow>
               if \<not> src_exists fs then
                 (case out SrcNotFound of
                    Some e \<Rightarrow>
                      (Uncaught e, st0\<lparr>stdout := stdout st0 @ [Checking max_lines, Blank]\<rparr>)
                  | None \<Rightarrow>
                      (SysExit 1,
                       st0\<lparr>stdout := stdout st0 @ [Checking max_lines, Blank, SrcNotFound]\<rparr>))
               else
                 (case fst (files_out max_lines out fs (src_rglob_ts fs)) of
                    Some e \<Rightarrow>
                      (Uncaught e,
                       \<lparr>EXIT_CODE = (if snd (files_out max_lines out fs (src_rglob_ts fs)) = []
                                     then EXIT_CODE st0 else 1),
                        stdout = stdout st0 @ [Checking max_lines, Blank]
                                   @ snd (files_out max_lines out fs (src_rglob_ts fs))\<rparr>)
                  | None \<Rightarrow>
                      summary max_lines out
                       \<lparr>EXIT_CODE = (if snd (files_out max_lines out fs (src_rglob_ts fs)) = []
                                     then EXIT_CODE st0 else 1),
                        stdout = stdout st0 @ [Checking max_lines, Blank]
                                   @ snd (files_out max_lines out fs (src_rglob_ts fs))\<rparr>)))"
proof (cases "out (Checking max_lines)")
  case (Some e)
  then show ?thesis by (simp add: main_def print_def)
next
  case c: None
  show ?thesis
  proof (cases "out Blank")
    case (Some e)
    then show ?thesis by (simp add: main_def print_def c)
  next
    case b: None
    show ?thesis
    proof (cases "src_exists fs")
      case False
      then show ?thesis by (cases "out SrcNotFound") (simp_all add: main_def print_def c b)
    next
      case True
      then show ?thesis
        by (cases "fst (files_out max_lines out fs (src_rglob_ts fs))")
           (simp_all add: main_def print_def c b files_loop_state)
    qed
  qed
qed

lemma summary_status_0:
  "exit_status (fst (summary max_lines out st)) = 0 \<longleftrightarrow>
     EXIT_CODE st = 0 \<and> out (AllWithin max_lines) = None"
proof (cases "EXIT_CODE st = 0")
  case True
  then show ?thesis by (cases "out (AllWithin max_lines)") (simp_all add: summary_def print_def)
next
  case False
  then show ?thesis
    by (cases "out Blank"; cases "out (PleaseRefactor max_lines)")
       (simp_all add: summary_def print_def)
qed

lemma summary_status_01:
  "EXIT_CODE st = 0 \<or> EXIT_CODE st = 1 \<Longrightarrow>
   exit_status (fst (summary max_lines out st)) = 0 \<or> exit_status (fst (summary max_lines out st)) = 1"
  by (cases "out Blank"; cases "out (PleaseRefactor max_lines)"; cases "out (AllWithin max_lines)")
     (auto simp: summary_def print_def)

lemma summary_reported:
  "reported (stdout (snd (summary max_lines out st))) = reported (stdout st)"
  by (cases "out Blank"; cases "out (PleaseRefactor max_lines)"; cases "out (AllWithin max_lines)")
     (simp_all add: summary_def print_def reported_append)

lemma summary_exit_code: "EXIT_CODE (snd (summary max_lines out st)) = EXIT_CODE st"
  by (cases "out Blank"; cases "out (PleaseRefactor max_lines)"; cases "out (AllWithin max_lines)")
     (simp_all add: summary_def print_def)

lemma files_clean_iff:
  "fst (files_out max_lines out fs (src_rglob_ts fs)) = None \<and>
   snd (files_out max_lines out fs (src_rglob_ts fs)) = [] \<longleftrightarrow>
   all_readable fs \<and> spec_run_violations max_lines fs = []"
proof
  assume a: "fst (files_out max_lines out fs (src_rglob_ts fs)) = None \<and>
             snd (files_out max_lines out fs (src_rglob_ts fs)) = []"
  from files_out_None[of max_lines out fs "src_rglob_ts fs"] a
  have "all_readable fs" "all_lines max_lines fs (src_rglob_ts fs) = []"
    by (simp_all add: all_readable_def)
  then show "all_readable fs \<and> spec_run_violations max_lines fs = []"
    by (simp add: all_lines_Nil_iff)
next
  assume a: "all_readable fs \<and> spec_run_violations max_lines fs = []"
  then have n: "all_lines max_lines fs (src_rglob_ts fs) = []" by (simp add: all_lines_Nil_iff)
  have "files_out max_lines out fs (src_rglob_ts fs) = (None, all_lines max_lines fs (src_rglob_ts fs))"
    using a n by (intro files_out_accepted) (simp_all add: all_readable_def)
  with n show "fst (files_out max_lines out fs (src_rglob_ts fs)) = None \<and>
             snd (files_out max_lines out fs (src_rglob_ts fs)) = []" by simp
qed

lemma run_status_0:
  "exit_status (fst (run out fs)) = 0 \<longleftrightarrow>
     out (Checking MAX_LINES) = None \<and> out Blank = None \<and> src_exists fs \<and>
     fst (files_out MAX_LINES out fs (src_rglob_ts fs)) = None \<and>
     snd (files_out MAX_LINES out fs (src_rglob_ts fs)) = [] \<and>
     out (AllWithin MAX_LINES) = None"
  by (cases "out (Checking MAX_LINES)"; cases "out Blank"; cases "src_exists fs";
      cases "out SrcNotFound"; cases "fst (files_out MAX_LINES out fs (src_rglob_ts fs))")
     (simp_all add: run_def main_result summary_status_0)

lemma run_status_01:
  "exit_status (fst (run out fs)) = 0 \<or> exit_status (fst (run out fs)) = 1"
proof (cases "out (Checking MAX_LINES) = None \<and> out Blank = None \<and> src_exists fs \<and>
              fst (files_out MAX_LINES out fs (src_rglob_ts fs)) = None")
  case True
  let ?S = "\<lparr>EXIT_CODE = (if snd (files_out MAX_LINES out fs (src_rglob_ts fs)) = [] then 0 else 1),
             stdout = [Checking MAX_LINES, Blank] @ snd (files_out MAX_LINES out fs (src_rglob_ts fs))\<rparr>"
  have r: "run out fs = summary MAX_LINES out ?S"
    using True by (simp add: run_def main_result)
  have "exit_status (fst (summary MAX_LINES out ?S)) = 0 \<or>
        exit_status (fst (summary MAX_LINES out ?S)) = 1"
    by (rule summary_status_01) simp
  then show ?thesis by (simp only: r)
next
  case False
  then have "exit_status (fst (run out fs)) = 1"
    by (cases "out (Checking MAX_LINES)"; cases "out Blank"; cases "src_exists fs";
        cases "out SrcNotFound"; cases "fst (files_out MAX_LINES out fs (src_rglob_ts fs))")
       (simp_all add: run_def main_result)
  then show ?thesis by simp
qed

lemma run_reported:
  "reported (stdout (snd (run out fs))) =
     (if out (Checking MAX_LINES) = None \<and> out Blank = None \<and> src_exists fs
      then reported (snd (files_out MAX_LINES out fs (src_rglob_ts fs))) else [])"
  by (cases "out (Checking MAX_LINES)"; cases "out Blank"; cases "src_exists fs";
      cases "out SrcNotFound"; cases "fst (files_out MAX_LINES out fs (src_rglob_ts fs))")
     (simp_all add: run_def main_result summary_reported reported_append)

lemma run_absent:
  "\<not> src_exists fs \<Longrightarrow> \<not> src_exists (fs' :: filesystem) \<Longrightarrow> run out fs' = run out fs"
  by (simp add: run_def main_result)

lemma src_exists_kind: "src fs \<noteq> NotADirectory \<Longrightarrow> src_exists fs \<longleftrightarrow> src fs = Directory"
  by (cases "src fs") (simp_all add: src_exists_def)

subsection \<open>A small directory\<close>

lemma fs_small_readable: "all_readable fs_small"
  by (simp add: all_readable_def fs_small_def)

lemma first_match_no_brace_line: "first_match patterns ''}'' = None"
  by code_simp

lemma first_match_function_f:
  "map_option (\<lambda>m. (lastindex m, groups m 3)) (first_match patterns ''function f() {'')
     = Some (Some 3, Some ''f'')"
  by code_simp

lemma span_function_f: "count_function_lines ''function f() {\<newline>}'' 1 = Inr 2"
  by code_simp

lemma find_functions_small: "find_functions MAX_LINES fs_small ''src/a.ts'' = Inr []"
proof -
  obtain m where m: "first_match patterns ''function f() {'' = Some m"
    using first_match_function_f by auto
  show ?thesis
    by (simp add: find_functions_def fs_small_def m span_function_f first_match_no_brace_line
        MAX_LINES_def)
qed

lemma no_violation_small: "spec_run_violations MAX_LINES fs_small = []"
  using find_functions_refines[of fs_small "''src/a.ts''" "''function f() {\<newline>}''" MAX_LINES]
    find_functions_small
  by (simp add: spec_run_violations_def fs_small_def src_rglob_ts_def)

text \<open>On the standard output that cannot encode the success line, the same directory
  gives status 1 though nothing is wrong with its files.\<close>

lemma run_stdout_ascii:
  "process_status True (fst (run stdout_ascii fs_small)) = 1 \<and>
   reported (stdout (snd (run stdout_ascii fs_small))) = []"
proof -
  have k: "src fs_small \<noteq> NotADirectory" by (simp add: fs_small_def)
  have "exit_status (fst (run stdout_ascii fs_small)) \<noteq> 0"
    by (simp add: run_status_0)
  then have "exit_status (fst (run stdout_ascii fs_small)) = 1"
    using run_status_01[of stdout_ascii fs_small] by simp
  moreover have "files_out MAX_LINES stdout_ascii fs_small (src_rglob_ts fs_small) = (None, [])"
    by (simp add: src_rglob_ts_def fs_small_def find_functions_small[unfolded fs_small_def]
        violation_lines_def)
  then have "reported (stdout (snd (run stdout_ascii fs_small))) = []"
    by (simp add: run_reported)
  ultimately show ?thesis by (simp add: process_status_def)
qed

text \<open>When \<^verbatim>\<open>src\<close> is a regular file, \<^verbatim>\<open>exists()\<close> is true, nothing is enumerated,
  and the status is 0.\<close>

lemma run_src_regular_file: "process_status True (fst (run stdout_utf8 fs_src_file)) = 0"
  by (simp add: process_status_def run_status_0 stdout_utf8_def src_exists_def src_rglob_ts_def
      fs_src_file_def)

text \<open>When the standard output cannot be flushed at exit, the status is 120 even for a
  directory with nothing to report.\<close>

lemma run_flush_fails: "process_status False (fst (run stdout_utf8 fs_small)) = 120"
  by (simp add: process_status_def)

subsection \<open>Runs on the same directory\<close>

lemma files_loop_same_read:
  assumes "\<forall>p \<in> set ps. read_text fs' p = read_text fs p"
  shows "files_loop max_lines out fs' ps st = files_loop max_lines out fs ps st"
  by (simp only: files_loop_state files_out_same_read[OF assms])

lemma run_same_directory:
  assumes "same_directory fs fs'"
  shows "main max_lines out fs' st = main max_lines out fs st"
proof (cases "src_exists fs")
  case False
  with assms have "\<not> src_exists fs'" by (simp add: same_directory_def)
  with False show ?thesis
    by (cases "out (Checking max_lines)"; cases "out Blank") (simp_all add: main_result)
next
  case True
  with assms have l: "src_rglob_ts fs' = src_rglob_ts fs"
    and r: "\<forall>p \<in> set (src_rglob_ts fs). read_text fs' p = read_text fs p"
    and e: "src_exists fs' = src_exists fs"
    by (simp_all add: same_directory_def)
  have fl: "\<And>s. files_loop max_lines out fs' (src_rglob_ts fs) s =
                 files_loop max_lines out fs (src_rglob_ts fs) s"
    by (rule files_loop_same_read[OF r])
  show ?thesis unfolding main_def by (simp only: e l fl)
qed

lemma main_exit_code:
  "EXIT_CODE (snd (main max_lines out fs st0)) =
     (if out (Checking max_lines) = None \<and> out Blank = None \<and> src_exists fs \<and>
         snd (files_out max_lines out fs (src_rglob_ts fs)) \<noteq> []
      then 1 else EXIT_CODE st0)"
  by (cases "out (Checking max_lines)"; cases "out Blank"; cases "src_exists fs";
      cases "out SrcNotFound"; cases "fst (files_out max_lines out fs (src_rglob_ts fs))")
     (simp_all add: main_result summary_exit_code)

lemma main_depends:
  assumes "stdout st = stdout st0"
    and "out (Checking max_lines) = None" and "out Blank = None" and "src_exists fs"
    and "snd (files_out max_lines out fs (src_rglob_ts fs)) \<noteq> []"
  shows "main max_lines out fs st = main max_lines out fs st0"
  using assms
  by (cases "fst (files_out max_lines out fs (src_rglob_ts fs))") (simp_all add: main_result)

lemma main_again:
  "main max_lines out fs ((snd (main max_lines out fs st0))\<lparr>stdout := stdout st0\<rparr>)
     = main max_lines out fs st0"
proof (cases "out (Checking max_lines) = None \<and> out Blank = None \<and> src_exists fs \<and>
              snd (files_out max_lines out fs (src_rglob_ts fs)) \<noteq> []")
  case True
  show ?thesis
    by (rule main_depends) (simp_all add: True)
next
  case False
  then have "EXIT_CODE (snd (main max_lines out fs st0)) = EXIT_CODE st0"
    by (auto simp: main_exit_code)
  then have "(snd (main max_lines out fs st0))\<lparr>stdout := stdout st0\<rparr> = st0" by simp
  then show ?thesis by simp
qed

subsection \<open>Candidates and violations of one line\<close>

lemma candidates_at:
  assumes "k < length (split_nl content)"
  shows "filter (\<lambda>c. fst c = int k + 1) (spec_find_candidates content) =
           (case first_match patterns (split_nl content ! k) of
              None \<Rightarrow> []
            | Some m \<Rightarrow> [(int k + 1, func_name_of m)])"
proof -
  have eq: "1 + int k = int k + 1" by simp
  show ?thesis
    using candidates_from_at[OF assms, of 1] unfolding spec_find_candidates_def eq .
qed

lemma scan_file_at:
  assumes "k < length (split_nl content)"
  shows "filter (\<lambda>v. fst v = int k + 1) (spec_scan_file max_lines content) =
           (case first_match patterns (split_nl content ! k) of
              None \<Rightarrow> []
            | Some m \<Rightarrow> spec_measure max_lines content (int k + 1, func_name_of m))"
proof -
  have "filter (\<lambda>v. fst v = int k + 1) (spec_scan_file max_lines content) =
        concat (map (spec_measure max_lines content)
                    (filter (\<lambda>c. fst c = int k + 1) (spec_find_candidates content)))"
    unfolding spec_scan_file_def by (rule measured_filter)
  then show ?thesis
    by (cases "first_match patterns (split_nl content ! k)") (simp_all add: candidates_at[OF assms])
qed

lemma scan_file_sorted: "sorted_wrt (<) (map fst (spec_scan_file max_lines content))"
  unfolding spec_scan_file_def spec_find_candidates_def
  by (rule measured_sorted) (rule candidates_from_sorted)

lemma re_search_function_f:
  "map_option (\<lambda>m. (lastindex m, groups m 3)) (re_search pattern1 ''function f() {'')
     = Some (Some 3, Some ''f'')"
  by code_simp

lemma match_async_value:
  "map_option (\<lambda>m. (lastindex m, groups m 3, groups m 4))
     (first_match patterns ''x = async function () {'')
   = Some (Some 4, Some ''x'', Some ''async '')"
  by code_simp

lemma find_functions_async:
  "find_functions MAX_LINES fs_async ''src/a.ts'' = Inr [(1, PyStr ''async '', 122)]"
  by code_simp

lemma run_async:
  "reported (stdout (snd (run stdout_utf8 fs_async))) = [(''src/a.ts'', 1, PyStr ''async '', 122)]"
  by code_simp

subsection \<open>Examples of matches\<close>

lemma name_of_plain_function:
  "map_option func_name_of (first_match patterns ''export async function foo(a) {'')
     = Some (PyStr ''foo'')"
  by code_simp

lemma name_of_method:
  "map_option func_name_of (first_match patterns ''  private async run('') = Some (PyStr ''run'')"
  by code_simp

lemma name_of_arrow:
  "map_option func_name_of (first_match patterns ''async (x) => {'') = Some (PyStr ''async'')"
  by code_simp

lemma name_of_async_assignment:
  "map_option func_name_of (first_match patterns ''x = async function () {'')
     = Some (PyStr ''async '')"
  by code_simp

lemma no_candidate_for_if: "first_match patterns ''if (x) {'' = None"
  by code_simp

lemma no_candidate_without_space: "first_match patterns ''functionx'' = None"
  by code_simp

section \<open>Properties of \<^verbatim>\<open>count_function_lines\<close>\<close>

text \<open>
  Claim C1. For a start line within the file's line range, the lines from the start line
  on are scanned with a running balance of opening minus closing braces, and the result
  is the number of lines up to and including the first line at which the balance is at
  most 0 and which contains a closing brace. A start line without any brace does not end
  the scan: when another line follows it, the result is at least 2.
\<close>

theorem measure_span_first_stop:
  assumes "1 \<le> start_line" and "start_line \<le> int (length (split_nl content))"
  shows "(\<forall>k < length (lines_from content start_line).
            spec_stop (lines_from content start_line) k \<and>
            (\<forall>j<k. \<not> spec_stop (lines_from content start_line) j) \<longrightarrow>
            count_function_lines content start_line = Inr (int k + 1))
       \<and> (CHR ''{'' \<notin> set (hd (lines_from content start_line)) \<and>
          CHR ''}'' \<notin> set (hd (lines_from content start_line)) \<and>
          2 \<le> length (lines_from content start_line) \<longrightarrow>
          (\<exists>n. count_function_lines content start_line = Inr n \<and> 2 \<le> n))"
proof (intro conjI allI impI)
  fix k
  assume k: "k < length (lines_from content start_line)"
    and st: "spec_stop (lines_from content start_line) k \<and>
             (\<forall>j<k. \<not> spec_stop (lines_from content start_line) j)"
  have "scan (lines_from content start_line) 0 = int k + 1"
    using k st by (intro scan_first_stop) (simp_all add: spec_stop_def)
  then show "count_function_lines content start_line = Inr (int k + 1)"
    using count_function_lines_scan[OF assms] by simp
next
  let ?ls = "lines_from content start_line"
  assume nb: "CHR ''{'' \<notin> set (hd ?ls) \<and> CHR ''}'' \<notin> set (hd ?ls) \<and> 2 \<le> length ?ls"
  then obtain l l' ls' where ls: "?ls = l # l' # ls'"
    by (cases ?ls; cases "tl ?ls") auto
  with nb have "CHR ''}'' \<notin> set l" by simp
  then have "scan ?ls 0 = 1 + scan (l' # ls') (brace_delta l)"
    by (simp add: ls)
  moreover have "1 \<le> scan (l' # ls') (brace_delta l)"
    by (rule scan_ge_1) simp
  ultimately have "2 \<le> scan ?ls 0" by simp
  then show "\<exists>n. count_function_lines content start_line = Inr n \<and> 2 \<le> n"
    using count_function_lines_scan[OF assms] by simp
qed

text \<open>The three lines \<^verbatim>\<open>f()\<close>, \<^verbatim>\<open>{\<close>, \<^verbatim>\<open>}\<close>: the scan from line 1 passes the
  first line, which has no brace, and stops at the third.\<close>

theorem measure_span_first_stop_witness:
  "1 \<le> (1::int) \<and> 1 \<le> int (length (split_nl (''f()\<newline>{\<newline>}'')))
   \<and> lines_from (''f()\<newline>{\<newline>}'') 1 = [''f()'', ''{'', ''}'']
   \<and> spec_stop [''f()'', ''{'', ''}''] 2
   \<and> \<not> spec_stop [''f()'', ''{'', ''}''] 0 \<and> \<not> spec_stop [''f()'', ''{'', ''}''] 1
   \<and> count_function_lines (''f()\<newline>{\<newline>}'') 1 = Inr 3"
proof -
  let ?c = "''f()\<newline>{\<newline>}''"
  have sp: "split_nl ?c = [''f()'', ''{'', ''}'']" by simp
  have lf: "lines_from ?c 1 = [''f()'', ''{'', ''}'']" by (simp add: lines_from_def)
  have s2: "spec_stop [''f()'', ''{'', ''}''] 2"
    by (simp add: spec_stop_def spec_balance_def brace_delta_def str_count_def)
  have s0: "\<not> spec_stop [''f()'', ''{'', ''}''] 0"
    by (simp add: spec_stop_def spec_balance_def brace_delta_def str_count_def)
  have s1: "\<not> spec_stop [''f()'', ''{'', ''}''] 1"
    by (simp add: spec_stop_def spec_balance_def brace_delta_def str_count_def)
  have before: "\<forall>j<2. \<not> spec_stop [''f()'', ''{'', ''}''] j"
    using s0 s1 by (auto simp: less_2_cases_iff)
  have pre: "1 \<le> (1::int)" "1 \<le> int (length (split_nl ?c))"
    by (simp_all add: sp)
  have "\<forall>k < length [''f()'', ''{'', ''}''].
          spec_stop [''f()'', ''{'', ''}''] k \<and> (\<forall>j<k. \<not> spec_stop [''f()'', ''{'', ''}''] j) \<longrightarrow>
          count_function_lines ?c 1 = Inr (int k + 1)"
    using measure_span_first_stop[OF pre, unfolded lf] by (rule conjunct1)
  then have "2 < length [''f()'', ''{'', ''}''] \<longrightarrow>
          spec_stop [''f()'', ''{'', ''}''] 2 \<and> (\<forall>j<2. \<not> spec_stop [''f()'', ''{'', ''}''] j) \<longrightarrow>
          count_function_lines ?c 1 = Inr (int 2 + 1)"
    by (rule spec)
  with s2 before have "count_function_lines ?c 1 = Inr 3" by simp
  then show ?thesis using sp lf s2 s0 s1 by simp
qed

text \<open>
  Claim C4. For a start line within the file's line range, if no line from the start
  line on satisfies the stop condition (balance at most 0 and a closing brace present),
  the result is the number of lines from the start line to the last line of the file.
\<close>

theorem measure_span_eof:
  assumes "1 \<le> start_line" and "start_line \<le> int (length (split_nl content))"
    and "\<forall>k < length (lines_from content start_line). \<not> spec_stop (lines_from content start_line) k"
  shows "count_function_lines content start_line =
           Inr (int (length (split_nl content)) - start_line + 1)"
proof -
  have "scan (lines_from content start_line) 0 = int (length (lines_from content start_line))"
    using assms(3) by (intro scan_no_stop) (simp add: spec_stop_def)
  then show ?thesis
    using count_function_lines_scan[OF assms(1,2)] length_lines_from[OF assms(1,2)] by simp
qed

text \<open>The three lines \<^verbatim>\<open>a\<close>, \<^verbatim>\<open>f() {\<close>, \<^verbatim>\<open>x\<close>, from line 2: the brace is never
  closed and the result is the two lines that remain.\<close>

theorem measure_span_eof_witness:
  "2 \<le> int (length (split_nl (''a\<newline>f() {\<newline>x'')))
   \<and> lines_from (''a\<newline>f() {\<newline>x'') 2 = [''f() {'', ''x'']
   \<and> \<not> spec_stop [''f() {'', ''x''] 0 \<and> \<not> spec_stop [''f() {'', ''x''] 1
   \<and> count_function_lines (''a\<newline>f() {\<newline>x'') 2 = Inr 2"
proof -
  let ?c = "''a\<newline>f() {\<newline>x''"
  have sp: "split_nl ?c = [''a'', ''f() {'', ''x'']" by simp
  have lf: "lines_from ?c 2 = [''f() {'', ''x'']" by (simp add: lines_from_def)
  have s0: "\<not> spec_stop [''f() {'', ''x''] 0"
    by (simp add: spec_stop_def spec_balance_def brace_delta_def str_count_def)
  have s1: "\<not> spec_stop [''f() {'', ''x''] 1"
    by (simp add: spec_stop_def spec_balance_def brace_delta_def str_count_def)
  have none: "\<forall>k < length (lines_from ?c 2). \<not> spec_stop (lines_from ?c 2) k"
    using s0 s1 by (auto simp: lf less_Suc_eq numeral_2_eq_2)
  have "count_function_lines ?c 2 = Inr (int (length (split_nl ?c)) - 2 + 1)"
    by (rule measure_span_eof[OF _ _ none]) (simp_all add: sp)
  then show ?thesis using sp lf s0 s1 by simp
qed

text \<open>
  Claim C5. For a start line within the file's line range, \<^verbatim>\<open>count_function_lines\<close>
  returns a number, and it is at least 1.
\<close>

theorem measure_span_ge_1:
  assumes "1 \<le> start_line" and "start_line \<le> int (length (split_nl content))"
  shows "\<exists>n. count_function_lines content start_line = Inr n \<and> 1 \<le> n"
  using count_function_lines_scan[OF assms] scan_ge_1[OF lines_from_not_Nil[OF assms]]
  by simp

text \<open>The empty file has one, empty, line; its span from line 1 is 1.\<close>

theorem measure_span_ge_1_witness:
  "1 \<le> (1::int) \<and> 1 \<le> int (length (split_nl []))
   \<and> (\<exists>n. count_function_lines [] 1 = Inr n \<and> 1 \<le> n)"
  using measure_span_ge_1[of 1 "[]"] by simp

text \<open>
  Claim C10. For a start line within the file's line range, the result never exceeds the
  number of lines from the start line to the end of the file: it is at most the total
  line count minus the start line plus 1.
\<close>

theorem measure_span_le_remaining:
  assumes "1 \<le> start_line" and "start_line \<le> int (length (split_nl content))"
  shows "\<exists>n. count_function_lines content start_line = Inr n \<and>
             n \<le> int (length (split_nl content)) - start_line + 1"
  using count_function_lines_scan[OF assms] length_lines_from[OF assms]
    scan_le_length[of "lines_from content start_line" 0]
  by simp

text \<open>Two lines \<^verbatim>\<open>}\<close> and \<^verbatim>\<open>x\<close>, from line 2: at most one line remains.\<close>

theorem measure_span_le_remaining_witness:
  "2 \<le> int (length (split_nl (''}\<newline>x'')))
   \<and> (\<exists>n. count_function_lines (''}\<newline>x'') 2 = Inr n \<and> n \<le> 1)"
proof -
  have sp: "split_nl (''}\<newline>x'') = [''}'', ''x'']" by simp
  show ?thesis
    using measure_span_le_remaining[of 2 "''}\<newline>x''"] by (simp add: sp)
qed

section \<open>Properties of \<^verbatim>\<open>find_functions\<close>\<close>

text \<open>
  Claim C2. The comparison with the limit is strict. Take a line that matches a pattern
  and whose measured span is \<open>n\<close>: the violations \<^verbatim>\<open>find_functions\<close> returns for
  that line are the single record of the line when \<open>n\<close> exceeds the limit and none
  otherwise. So a span equal to the limit gives no violation and a span of the limit plus
  one gives exactly one. This holds for every limit, in particular for every limit of at
  least 1.
\<close>

theorem boundary_strict:
  assumes "read_text fs file_path = Inr content"
    and "k < length (split_nl content)"
    and "first_match patterns (split_nl content ! k) = Some m"
    and "count_function_lines content (int k + 1) = Inr n"
  shows "\<exists>vs. find_functions max_lines fs file_path = Inr vs \<and>
           filter (\<lambda>v. fst v = int k + 1) vs =
             (if n > max_lines then [(int k + 1, func_name_of m, n)] else []) \<and>
           (n = max_lines \<longrightarrow> filter (\<lambda>v. fst v = int k + 1) vs = []) \<and>
           (n = max_lines + 1 \<longrightarrow>
              filter (\<lambda>v. fst v = int k + 1) vs = [(int k + 1, func_name_of m, max_lines + 1)])"
proof -
  have ff: "find_functions max_lines fs file_path = Inr (spec_scan_file max_lines content)"
    by (rule find_functions_refines[OF assms(1)])
  have at: "filter (\<lambda>v. fst v = int k + 1) (spec_scan_file max_lines content) =
              (if n > max_lines then [(int k + 1, func_name_of m, n)] else [])"
    using scan_file_at[OF assms(2), of max_lines] assms(3,4) by (simp add: spec_measure_def)
  show ?thesis using ff at by simp
qed

text \<open>The two lines \<^verbatim>\<open>function f() {\<close> and \<^verbatim>\<open>}\<close> have a span of 2: no
  violation with limit 2, one with limit 1.\<close>

theorem boundary_strict_witness:
  "(\<exists>vs. find_functions 2 fs_small ''src/a.ts'' = Inr vs \<and> filter (\<lambda>v. fst v = 1) vs = [])
   \<and> (\<exists>vs. find_functions 1 fs_small ''src/a.ts'' = Inr vs \<and>
          filter (\<lambda>v. fst v = 1) vs = [(1, PyStr ''f'', 2)])"
proof -
  let ?c = "''function f() {\<newline>}''"
  obtain m where m: "first_match patterns ''function f() {'' = Some m"
    and li: "lastindex m = Some 3" and g: "groups m 3 = Some ''f''"
    using first_match_function_f by auto
  have nm: "func_name_of m = PyStr ''f''"
    by (simp add: func_name_of_def match_group_def li g)
  have r: "read_text fs_small ''src/a.ts'' = Inr ?c" by (simp add: fs_small_def)
  have k: "0 < length (split_nl ?c)" by simp
  have fm: "first_match patterns (split_nl ?c ! 0) = Some m" using m by simp
  have sp: "count_function_lines ?c (int 0 + 1) = Inr 2" using span_function_f by simp
  from boundary_strict[OF r k fm sp, of 2] boundary_strict[OF r k fm sp, of 1] nm
  show ?thesis by simp
qed

text \<open>
  Claim C6. The name of a candidate is the text of the group that matched last, which is
  not always the group that holds the name of the function. On the line
  \<^verbatim>\<open>x = async function () {\<close> the first pattern that matches is the sixth: its
  group 3 holds the name \<^verbatim>\<open>x\<close>, the optional group 4 that follows it holds
  \<^verbatim>\<open>async\<close> and a space, and \<^verbatim>\<open>lastindex\<close> is 4. In a file of 122 lines that
  starts with this line and ends with the closing brace, \<^verbatim>\<open>find_functions\<close> returns one
  violation and the run reports it, under the name \<^verbatim>\<open>async\<close> followed by a space,
  where the comment \<^verbatim>\<open># Extract function name\<close> announces the name of the
  function.
\<close>

theorem async_function_value_named_async:
  "map_option (\<lambda>m. (lastindex m, groups m 3, groups m 4))
     (first_match patterns ''x = async function () {'')
     = Some (Some 4, Some ''x'', Some ''async '')
   \<and> find_functions MAX_LINES fs_async ''src/a.ts'' = Inr [(1, PyStr ''async '', 122)]
   \<and> reported (stdout (snd (run stdout_utf8 fs_async)))
       = [(''src/a.ts'', 1, PyStr ''async '', 122)]"
  using match_async_value find_functions_async run_async by simp

text \<open>
  Claim C7. The patterns are tried in their order and the first that matches decides:
  \<^verbatim>\<open>first_match\<close> gives no match exactly when no pattern matches, and otherwise the
  match of the first pattern that matches. Each line gives one candidate when it matches
  and none when it does not, the candidates of a file are in strictly ascending order of
  line number, and so are the violations \<^verbatim>\<open>find_functions\<close> returns, which are the
  candidates that are too long, in the order of the candidates.
\<close>

theorem one_candidate_per_line:
  assumes "read_text fs file_path = Inr content"
  shows "(\<forall>line. (first_match patterns line = None \<longleftrightarrow>
                    (\<forall>p \<in> set patterns. re_search p line = None)) \<and>
                 (\<forall>m. first_match patterns line = Some m \<longleftrightarrow>
                    (\<exists>j<length patterns. re_search (patterns ! j) line = Some m \<and>
                       (\<forall>i<j. re_search (patterns ! i) line = None))))
       \<and> (\<forall>k<length (split_nl content).
            filter (\<lambda>c. fst c = int k + 1) (spec_find_candidates content) =
              (case first_match patterns (split_nl content ! k) of
                 None \<Rightarrow> []
               | Some m \<Rightarrow> [(int k + 1, func_name_of m)]))
       \<and> (\<forall>c \<in> set (spec_find_candidates content).
             1 \<le> fst c \<and> fst c \<le> int (length (split_nl content)))
       \<and> sorted_wrt (<) (map fst (spec_find_candidates content))
       \<and> find_functions max_lines fs file_path = Inr (spec_scan_file max_lines content)
       \<and> sorted_wrt (<) (map fst (spec_scan_file max_lines content))"
proof (intro conjI allI impI ballI)
  fix line
  show "first_match patterns line = None \<longleftrightarrow> (\<forall>p \<in> set patterns. re_search p line = None)"
    by (rule first_match_None)
next
  fix line m
  show "first_match patterns line = Some m \<longleftrightarrow>
          (\<exists>j<length patterns. re_search (patterns ! j) line = Some m \<and>
             (\<forall>i<j. re_search (patterns ! i) line = None))"
    by (rule first_match_Some)
next
  fix k assume "k < length (split_nl content)"
  then show "filter (\<lambda>c. fst c = int k + 1) (spec_find_candidates content) =
              (case first_match patterns (split_nl content ! k) of
                 None \<Rightarrow> []
               | Some m \<Rightarrow> [(int k + 1, func_name_of m)])"
    by (rule candidates_at)
next
  fix c assume "c \<in> set (spec_find_candidates content)"
  then show "1 \<le> fst c" using candidates_from_bounds[of c 1 "split_nl content"]
    by (simp add: spec_find_candidates_def)
next
  fix c assume "c \<in> set (spec_find_candidates content)"
  then show "fst c \<le> int (length (split_nl content))"
    using candidates_from_bounds[of c 1 "split_nl content"]
    by (simp add: spec_find_candidates_def)
next
  show "sorted_wrt (<) (map fst (spec_find_candidates content))"
    unfolding spec_find_candidates_def by (rule candidates_from_sorted)
next
  show "find_functions max_lines fs file_path = Inr (spec_scan_file max_lines content)"
    by (rule find_functions_refines[OF assms])
next
  show "sorted_wrt (<) (map fst (spec_scan_file max_lines content))"
    by (rule scan_file_sorted)
qed

text \<open>In the file of two lines above, the second line \<^verbatim>\<open>}\<close> matches no
  pattern and gives no candidate.\<close>

theorem one_candidate_per_line_witness:
  "read_text fs_small ''src/a.ts'' = Inr ''function f() {\<newline>}''
   \<and> find_functions MAX_LINES fs_small ''src/a.ts'' =
       Inr (spec_scan_file MAX_LINES ''function f() {\<newline>}'')
   \<and> sorted_wrt (<) (map fst (spec_find_candidates ''function f() {\<newline>}''))
   \<and> filter (\<lambda>c. fst c = 2) (spec_find_candidates ''function f() {\<newline>}'') = []"
proof -
  let ?c = "''function f() {\<newline>}''"
  have r: "read_text fs_small ''src/a.ts'' = Inr ?c" by (simp add: fs_small_def)
  note T = one_candidate_per_line[OF r, of MAX_LINES]
  have "\<forall>k<length (split_nl ?c).
            filter (\<lambda>c. fst c = int k + 1) (spec_find_candidates ?c) =
              (case first_match patterns (split_nl ?c ! k) of
                 None \<Rightarrow> []
               | Some m \<Rightarrow> [(int k + 1, func_name_of m)])"
    using T by blast
  then have "1 < length (split_nl ?c) \<longrightarrow>
            filter (\<lambda>c. fst c = int 1 + 1) (spec_find_candidates ?c) =
              (case first_match patterns (split_nl ?c ! 1) of
                 None \<Rightarrow> []
               | Some m \<Rightarrow> [(int 1 + 1, func_name_of m)])"
    by (rule spec)
  then have two: "filter (\<lambda>c. fst c = 2) (spec_find_candidates ?c) = []"
    by (simp add: first_match_no_brace_line)
  show ?thesis using r T two by blast
qed

text \<open>
  Claim C9. For each of the six patterns, a match always has a last matched group:
  \<^verbatim>\<open>lastindex\<close> is present and not 0 and the group it names took part in the
  match. The branch that gives the name \<^verbatim>\<open>anonymous\<close> is therefore never taken, and
  the name of a candidate is the text captured by that group.
\<close>

theorem lastindex_never_absent:
  "(\<forall>p \<in> set patterns. \<forall>m. re_search p line = Some m \<longrightarrow>
      (\<exists>n t. lastindex m = Some n \<and> n \<noteq> 0 \<and> groups m n = Some t \<and> func_name_of m = PyStr t))
   \<and> (\<forall>m. first_match patterns line = Some m \<longrightarrow>
      (\<exists>n t. lastindex m = Some n \<and> n \<noteq> 0 \<and> groups m n = Some t \<and> func_name_of m = PyStr t))"
proof -
  have one: "\<And>p m. p \<in> set patterns \<Longrightarrow> re_search p line = Some m \<Longrightarrow>
      \<exists>n t. lastindex m = Some n \<and> n \<noteq> 0 \<and> groups m n = Some t \<and> func_name_of m = PyStr t"
  proof -
    fix p m assume "p \<in> set patterns" "re_search p line = Some m"
    then obtain n t where "lastindex m = Some n" "n \<noteq> 0" "groups m n = Some t"
      using re_search_patterns by blast
    then show "\<exists>n t. lastindex m = Some n \<and> n \<noteq> 0 \<and> groups m n = Some t \<and> func_name_of m = PyStr t"
      by (simp add: func_name_of_def match_group_def)
  qed
  have two: "\<And>m. first_match patterns line = Some m \<Longrightarrow>
      \<exists>n t. lastindex m = Some n \<and> n \<noteq> 0 \<and> groups m n = Some t \<and> func_name_of m = PyStr t"
  proof -
    fix m assume "first_match patterns line = Some m"
    then obtain j where "j < length patterns" "re_search (patterns ! j) line = Some m"
      using first_match_Some[of patterns line m] by blast
    then show "\<exists>n t. lastindex m = Some n \<and> n \<noteq> 0 \<and> groups m n = Some t \<and> func_name_of m = PyStr t"
      using one[of "patterns ! j" m] by simp
  qed
  show ?thesis using one two by blast
qed

text \<open>The line \<^verbatim>\<open>function f() {\<close> and the first pattern: \<^verbatim>\<open>lastindex\<close> is 3
  and the name is \<^verbatim>\<open>f\<close>.\<close>

theorem lastindex_never_absent_witness:
  "pattern1 \<in> set patterns \<and>
   (\<exists>m. re_search pattern1 ''function f() {'' = Some m \<and> lastindex m = Some 3 \<and>
        func_name_of m = PyStr ''f'')"
proof -
  have mem: "pattern1 \<in> set patterns" by (simp add: patterns_def)
  obtain m where m: "re_search pattern1 ''function f() {'' = Some m"
    and li: "lastindex m = Some 3" and g: "groups m 3 = Some ''f''"
    using re_search_function_f by auto
  from lastindex_never_absent[of "''function f() {''"] mem m
  obtain n t where "lastindex m = Some n" "groups m n = Some t" "func_name_of m = PyStr t"
    by blast
  with li g have "func_name_of m = PyStr ''f''" by simp
  with mem m li show ?thesis by blast
qed

section \<open>Properties of a run\<close>

text \<open>
  Claim C3, as the script behaves, for a path \<^verbatim>\<open>src\<close> that is missing or a directory.
  The process exits with status 0 exactly when the directory exists, every file of the
  scan can be read as text, no violation is found in these files, the standard output
  accepts the header, the blank line and the line of success, and it can be flushed at
  exit. When the standard output can be flushed at exit, the process exits with status 1
  if the directory is missing, if a violation is found in the files of the scan, or if a
  violation was reported. When the directory exists, every file can be read and the
  standard output accepts every line, the violations reported are those of the files of
  the scan, in order. When the directory is missing the run prints the header and the
  error and ends at once: no violation is reported and the run does not depend on any
  file.
\<close>

theorem run_exit_status:
  assumes "src fs \<noteq> NotADirectory"
  shows "(process_status flush_ok (fst (run out fs)) = 0 \<longleftrightarrow>
            src fs = Directory \<and> all_readable fs \<and> spec_run_violations MAX_LINES fs = [] \<and>
            out (Checking MAX_LINES) = None \<and> out Blank = None \<and>
            out (AllWithin MAX_LINES) = None \<and> flush_ok)
       \<and> (flush_ok \<and>
          (src fs = Absent \<or> spec_run_violations MAX_LINES fs \<noteq> [] \<or>
           reported (stdout (snd (run out fs))) \<noteq> []) \<longrightarrow>
            process_status flush_ok (fst (run out fs)) = 1)
       \<and> (src fs = Directory \<and> all_readable fs \<and> (\<forall>msg. out msg = None) \<longrightarrow>
            reported (stdout (snd (run out fs))) = spec_run_violations MAX_LINES fs)
       \<and> (src fs = Absent \<longrightarrow>
            reported (stdout (snd (run out fs))) = [] \<and>
            (\<forall>fs' :: filesystem. src fs' = Absent \<longrightarrow> run out fs' = run out fs))"
proof -
  note k = src_exists_kind[OF assms]
  have one: "exit_status (fst (run out fs)) = 0 \<longleftrightarrow>
            src fs = Directory \<and> all_readable fs \<and> spec_run_violations MAX_LINES fs = [] \<and>
            out (Checking MAX_LINES) = None \<and> out Blank = None \<and>
            out (AllWithin MAX_LINES) = None"
    using files_clean_iff[of MAX_LINES out fs] by (auto simp: run_status_0 k)
  have rep: "reported (stdout (snd (run out fs))) \<noteq> [] \<Longrightarrow> exit_status (fst (run out fs)) \<noteq> 0"
  proof
    assume r: "reported (stdout (snd (run out fs))) \<noteq> []" and z: "exit_status (fst (run out fs)) = 0"
    from z have "snd (files_out MAX_LINES out fs (src_rglob_ts fs)) = []" by (simp add: run_status_0)
    with r show False by (simp add: run_reported split: if_splits)
  qed
  have two: "src fs = Absent \<or> spec_run_violations MAX_LINES fs \<noteq> [] \<or>
          reported (stdout (snd (run out fs))) \<noteq> [] \<longrightarrow> exit_status (fst (run out fs)) = 1"
    using one rep run_status_01[of out fs] by auto
  have three: "src fs = Directory \<and> all_readable fs \<and> (\<forall>msg. out msg = None) \<longrightarrow>
            reported (stdout (snd (run out fs))) = spec_run_violations MAX_LINES fs"
  proof
    assume a: "src fs = Directory \<and> all_readable fs \<and> (\<forall>msg. out msg = None)"
    then have "files_out MAX_LINES out fs (src_rglob_ts fs) =
                 (None, all_lines MAX_LINES fs (src_rglob_ts fs))"
      by (intro files_out_accepted) (simp_all add: all_readable_def)
    with a show "reported (stdout (snd (run out fs))) = spec_run_violations MAX_LINES fs"
      by (simp add: run_reported src_exists_def reported_all_lines)
  qed
  have four: "src fs = Absent \<longrightarrow>
            reported (stdout (snd (run out fs))) = [] \<and>
            (\<forall>fs' :: filesystem. src fs' = Absent \<longrightarrow> run out fs' = run out fs)"
  proof (intro impI conjI allI)
    assume "src fs = Absent"
    then show "reported (stdout (snd (run out fs))) = []"
      by (simp add: run_reported src_exists_def)
  next
    fix fs' :: filesystem assume "src fs = Absent" "src fs' = Absent"
    then show "run out fs' = run out fs" by (intro run_absent) (simp_all add: src_exists_def)
  qed
  have one': "process_status flush_ok (fst (run out fs)) = 0 \<longleftrightarrow>
            src fs = Directory \<and> all_readable fs \<and> spec_run_violations MAX_LINES fs = [] \<and>
            out (Checking MAX_LINES) = None \<and> out Blank = None \<and>
            out (AllWithin MAX_LINES) = None \<and> flush_ok"
    using one by (cases flush_ok) (simp_all add: process_status_def)
  have two': "flush_ok \<and>
          (src fs = Absent \<or> spec_run_violations MAX_LINES fs \<noteq> [] \<or>
           reported (stdout (snd (run out fs))) \<noteq> []) \<longrightarrow>
            process_status flush_ok (fst (run out fs)) = 1"
    using two by (simp add: process_status_def)
  show ?thesis using one' two' three four by blast
qed

text \<open>A directory with one file of two lines, on a standard output that accepts
  every line: status 0 and no violation.\<close>

theorem run_exit_status_witness:
  "src fs_small \<noteq> NotADirectory \<and> src fs_small = Directory \<and> all_readable fs_small
   \<and> spec_run_violations MAX_LINES fs_small = []
   \<and> process_status True (fst (run stdout_utf8 fs_small)) = 0
   \<and> reported (stdout (snd (run stdout_utf8 fs_small))) = []"
proof -
  have k: "src fs_small \<noteq> NotADirectory" and d: "src fs_small = Directory"
    by (simp_all add: fs_small_def)
  have acc: "\<forall>msg. stdout_utf8 msg = None" by (simp add: stdout_utf8_def)
  note T = run_exit_status[OF k, of True stdout_utf8]
  have z: "process_status True (fst (run stdout_utf8 fs_small)) = 0"
    using T d fs_small_readable no_violation_small acc by blast
  have "reported (stdout (snd (run stdout_utf8 fs_small))) = spec_run_violations MAX_LINES fs_small"
    using T d fs_small_readable acc by blast
  with k d fs_small_readable no_violation_small z show ?thesis by simp
qed

text \<open>
  The claim without the condition on reading fails. The directory exists and holds one
  file that is not valid UTF-8: \<^verbatim>\<open>f.read()\<close> raises, nothing catches the exception,
  no violation was reported, and the status is not 0, on a standard output that accepts
  every line and can be flushed.
\<close>

theorem exit_status_unreadable_counterexample:
  "\<not> (process_status True (fst (run stdout_utf8 fs_unreadable)) = 0 \<longleftrightarrow>
        src fs_unreadable = Directory \<and>
        reported (stdout (snd (run stdout_utf8 fs_unreadable))) = [])"
  by (simp add: process_status_def run_def main_def fs_unreadable_def find_functions_def
      print_def stdout_utf8_def src_exists_def src_rglob_ts_def)

text \<open>
  Claim C8. On a given standard output, the outcome of a run and what it prints are a
  function of the directory alone: what \<^verbatim>\<open>src\<close> is, the files the scan enumerates,
  and their contents. Two file systems that agree on these give the same run. A second call of \<^verbatim>\<open>main\<close> that
  started from the value the first one left in \<^verbatim>\<open>EXIT_CODE\<close> would end the same
  way and print the same lines.
\<close>

theorem run_deterministic:
  assumes "same_directory fs fs'"
  shows "run out fs' = run out fs
       \<and> fst (main MAX_LINES out fs' ((snd (run out fs))\<lparr>stdout := []\<rparr>)) = fst (run out fs)
       \<and> stdout (snd (main MAX_LINES out fs' ((snd (run out fs))\<lparr>stdout := []\<rparr>)))
           = stdout (snd (run out fs))"
proof -
  have a: "run out fs' = run out fs"
    unfolding run_def by (rule run_same_directory[OF assms])
  have b: "main MAX_LINES out fs' ((snd (run out fs))\<lparr>stdout := []\<rparr>)
         = main MAX_LINES out fs ((snd (run out fs))\<lparr>stdout := []\<rparr>)"
    by (rule run_same_directory[OF assms])
  have c: "main MAX_LINES out fs ((snd (run out fs))\<lparr>stdout := []\<rparr>) = run out fs"
    using main_again[of MAX_LINES out fs "\<lparr>EXIT_CODE = 0, stdout = []\<rparr>"]
    by (simp add: run_def)
  show ?thesis by (simp only: a b c)
qed

text \<open>Two file systems that differ only in files outside the scan.\<close>

theorem run_deterministic_witness:
  "same_directory fs_small fs_small_other \<and>
   run stdout_utf8 fs_small_other = run stdout_utf8 fs_small"
proof -
  have "same_directory fs_small fs_small_other"
    by (simp add: same_directory_def fs_small_def fs_small_other_def src_exists_def
        src_rglob_ts_def)
  then show ?thesis using run_deterministic[of fs_small fs_small_other stdout_utf8] by simp
qed

end
